theory Spec2Isabelle
  imports Complex_Main "HOL-Library.AList"
begin

section \<open>Data model of elasticsearch-stress-test.py\<close>

text \<open>
  The script is Python 2 (it reads \<open>e.message\<close>, starts its threads through an eager
  \<open>map\<close>, and ends \<open>print\<close> statements with a comma). Its integers are unbounded,
  so they are \<open>int\<close>; \<open>/\<close> on two integers is floor division.

  Exceptions are values. \<open>SystemExit n\<close> is what \<open>sys.exit(n)\<close> raises; it is not an
  \<open>Exception\<close>, so no \<open>except Exception\<close> clause of the script catches it.
  \<open>TransportError\<close> stands for whatever the elasticsearch client raises.
\<close>

datatype py_exc =
    ValueError
  | IndexError
  | AttributeError
  | ZeroDivisionError
  | TransportError
  | SystemExit int

text \<open>
  A document is a Python dict from field name to field value. It is kept as an association
  list with distinct keys, updated with \<open>AList.update\<close>; the order in which Python iterates
  over a dict is not fixed by the language and is taken to be the order of the list.
  Dicts are mutable objects shared by reference, so the lists of the script hold addresses
  into an object store.
\<close>

type_synonym doc = "(string \<times> string) list"
type_synonym ref = nat

text \<open>The command-line arguments the script copies into its upper-case globals (lines 79-90).\<close>

record config =
  NUMBER_OF_INDICES :: int
  NUMBER_OF_DOCUMENTS :: int
  NUMBER_OF_CLIENTS :: int
  NUMBER_OF_SECONDS :: int
  BULK_SIZE :: int
  MAX_FIELDS_PER_DOCUMENT :: int
  MAX_SIZE_PER_FIELD :: int
  NO_CLEANUP :: bool
  STATS_FREQUENCY :: int
  WAIT_FOR_GREEN :: bool

text \<open>Requests that reach the elasticsearch client, in the order they are made.\<close>

datatype es_call =
    IndicesCreate string
  | IndicesDelete string
  | ClusterHealth
  | Bulk string

text \<open>What the script prints, one constructor per \<open>print\<close> of the source.\<close>

datatype line =
    Blank
  | NotSupporting int
  | CouldNotCreateIndex
  | CouldNotDeleteIndex string
  | ElapsedTime int
  | SuccessfulBulks int int
  | FailedBulks int int
  | Indexed int rat
  | CtrlCReceived
  | CleaningUp
  | TestIsDone
  | Done
  | ClusterTimeout
  | CreatingIndices
  | GeneratingWorkers
  | UnexpectedException
  | ExceptionMessage py_exc

text \<open>
  The state the script works on: its module-level globals (lines 99-111), the object store,
  the standard output, and the two sources of outside behaviour. \<open>entropy\<close> is the sequence of
  raw values of the random generator and \<open>draws\<close> counts how many of them have been used;
  \<open>es_raises k\<close> tells whether the \<open>k\<close>-th request to the store raises.
\<close>

record world =
  entropy :: "nat \<Rightarrow> nat"
  draws :: nat
  heap :: "doc list"
  documents :: "ref list"
  success_bulks :: int
  failed_bulks :: int
  total_size :: int
  shutdown_event :: bool
  es_raises :: "nat \<Rightarrow> bool"
  es_log :: "es_call list"
  stdout :: "line list"

definition print_line :: "line \<Rightarrow> world \<Rightarrow> world" where
  "print_line l w = w\<lparr>stdout := stdout w @ [l]\<rparr>"

section \<open>Counters (lines 115-154)\<close>

text \<open>
  Each increment runs under its own lock, so it is one atomic step on the shared state.
\<close>

definition increment_success :: "world \<Rightarrow> world" where
  "increment_success w = w\<lparr>success_bulks := success_bulks w + 1\<rparr>"

definition increment_failure :: "world \<Rightarrow> world" where
  "increment_failure w = w\<lparr>failed_bulks := failed_bulks w + 1\<rparr>"

definition increment_size :: "int \<Rightarrow> world \<Rightarrow> world" where
  "increment_size sz w = w\<lparr>total_size := total_size w + sz\<rparr>"

section \<open>Statistics (lines 303-321)\<close>

text \<open>
  Python's division of a number by a float raises \<open>ZeroDivisionError\<close> on a zero divisor.
  The quotient is kept exact (a rational) instead of rounded to a double.
\<close>

definition truediv :: "rat \<Rightarrow> rat \<Rightarrow> py_exc + rat" where
  "truediv a b = (if b = 0 then Inl ZeroDivisionError else Inr (a / b))"

text \<open>\<open>now\<close> is the value of \<open>int(time.time())\<close> read on line 305.\<close>

definition print_stats :: "config \<Rightarrow> int \<Rightarrow> int \<Rightarrow> world \<Rightarrow> (py_exc + unit) \<times> world" where
  "print_stats cfg STARTED_TIMESTAMP now w =
    (let elapsed_time = now - STARTED_TIMESTAMP;
         size_mb = total_size w div 1024 div 1024
     in case (if elapsed_time = 0 then Inr 0
              else truediv (of_int size_mb) (of_int elapsed_time)) of
          Inl e \<Rightarrow> (Inl e, w)
        | Inr mbs \<Rightarrow>
            (Inr (),
             w\<lparr>stdout := stdout w @
                [ElapsedTime elapsed_time,
                 SuccessfulBulks (success_bulks w) (success_bulks w * BULK_SIZE cfg),
                 FailedBulks (failed_bulks w) (failed_bulks w * BULK_SIZE cfg),
                 Indexed size_mb mbs,
                 Blank]\<rparr>))"

section \<open>Random values (lines 165-176)\<close>

text \<open>
  \<open>randint\<close> and \<open>choice\<close> belong to Python's \<open>random\<close> module. Each call that returns
  reads one raw value \<open>r\<close> of the generator: \<open>randint a b\<close> returns \<open>a + r mod (b - a + 1)\<close>,
  so every integer from \<open>a\<close> to \<open>b\<close> is returned for some \<open>r\<close>, and raises \<open>ValueError\<close> on an
  empty range; \<open>choice\<close> returns the element at index \<open>r mod len\<close> and raises \<open>IndexError\<close> on
  an empty sequence.
\<close>

definition randint :: "int \<Rightarrow> int \<Rightarrow> nat \<Rightarrow> py_exc + int" where
  "randint a b r = (if b < a then Inl ValueError else Inr (a + int (r mod nat (b - a + 1))))"

definition choice :: "'a list \<Rightarrow> nat \<Rightarrow> py_exc + 'a" where
  "choice xs r = (if xs = [] then Inl IndexError else Inr (xs ! (r mod length xs)))"

definition ascii_lowercase :: string where
  "ascii_lowercase = ''abcdefghijklmnopqrstuvwxyz''"

definition lowercase :: "string \<Rightarrow> bool" where
  "lowercase s = list_all (\<lambda>c. c \<in> set ascii_lowercase) s"

text \<open>Lines 166-171: any exception of \<open>randint\<close> is reported and the process exits.\<close>

definition generate_random_int :: "int \<Rightarrow> world \<Rightarrow> (py_exc + int) \<times> world" where
  "generate_random_int max_size w =
     (case randint 1 max_size (entropy w (draws w)) of
        Inl e \<Rightarrow> (Inl (SystemExit 1), print_line (NotSupporting max_size) w)
      | Inr n \<Rightarrow> (Inr n, w\<lparr>draws := draws w + 1\<rparr>))"

text \<open>The generator expression of line 176: one \<open>choice\<close> per position.\<close>

fun random_chars :: "nat \<Rightarrow> world \<Rightarrow> (py_exc + string) \<times> world" where
  "random_chars 0 w = (Inr [], w)"
| "random_chars (Suc n) w =
     (case choice ascii_lowercase (entropy w (draws w)) of
        Inl e \<Rightarrow> (Inl e, w)
      | Inr c \<Rightarrow>
          (case random_chars n (w\<lparr>draws := draws w + 1\<rparr>) of
             (Inl e, w') \<Rightarrow> (Inl e, w')
           | (Inr cs, w') \<Rightarrow> (Inr (c # cs), w')))"

definition generate_random_string :: "int \<Rightarrow> world \<Rightarrow> (py_exc + string) \<times> world" where
  "generate_random_string max_size w =
     (case generate_random_int max_size w of
        (Inl e, w') \<Rightarrow> (Inl e, w')
      | (Inr n, w') \<Rightarrow> random_chars (nat n) w')"

section \<open>Document templates (lines 180-189 and 253-263)\<close>

text \<open>
  The body of the loop of \<open>generate_document\<close>. Python evaluates the right-hand side of the
  assignment first, so the value is drawn before the key.
\<close>

fun add_fields :: "config \<Rightarrow> nat \<Rightarrow> doc \<Rightarrow> world \<Rightarrow> (py_exc + doc) \<times> world" where
  "add_fields cfg 0 temp_doc w = (Inr temp_doc, w)"
| "add_fields cfg (Suc n) temp_doc w =
     (case generate_random_string (MAX_SIZE_PER_FIELD cfg) w of
        (Inl e, w1) \<Rightarrow> (Inl e, w1)
      | (Inr v, w1) \<Rightarrow>
          (case generate_random_string 10 w1 of
             (Inl e, w2) \<Rightarrow> (Inl e, w2)
           | (Inr k, w2) \<Rightarrow> add_fields cfg n (AList.update k v temp_doc) w2))"

text \<open>The new dict is a fresh object: it gets the next address of the object store.\<close>

definition generate_document :: "config \<Rightarrow> world \<Rightarrow> (py_exc + ref) \<times> world" where
  "generate_document cfg w =
     (case generate_random_int (MAX_FIELDS_PER_DOCUMENT cfg) w of
        (Inl e, w1) \<Rightarrow> (Inl e, w1)
      | (Inr n, w1) \<Rightarrow>
          (case add_fields cfg (nat n) [] w1 of
             (Inl e, w2) \<Rightarrow> (Inl e, w2)
           | (Inr d, w2) \<Rightarrow> (Inr (length (heap w2)), w2\<lparr>heap := heap w2 @ [d]\<rparr>)))"

fun generate_documents_loop ::
  "config \<Rightarrow> nat \<Rightarrow> ref list \<Rightarrow> world \<Rightarrow> (py_exc + ref list) \<times> world" where
  "generate_documents_loop cfg 0 temp_documents w = (Inr temp_documents, w)"
| "generate_documents_loop cfg (Suc n) temp_documents w =
     (case generate_document cfg w of
        (Inl e, w') \<Rightarrow> (Inl e, w')
      | (Inr r, w') \<Rightarrow> generate_documents_loop cfg n (temp_documents @ [r]) w')"

definition generate_documents :: "config \<Rightarrow> world \<Rightarrow> (py_exc + ref list) \<times> world" where
  "generate_documents cfg w =
     generate_documents_loop cfg (nat (NUMBER_OF_DOCUMENTS cfg)) [] w"

section \<open>The document pool (lines 192-206)\<close>

text \<open>
  \<open>fill_documents\<close> picks a template, overwrites the value of each of its fields in the
  object itself, and appends the same object to the global list \<open>documents\<close>.
\<close>

fun populate_fields :: "config \<Rightarrow> ref \<Rightarrow> string list \<Rightarrow> world \<Rightarrow> (py_exc + unit) \<times> world" where
  "populate_fields cfg temp_doc [] w = (Inr (), w)"
| "populate_fields cfg temp_doc (field # rest) w =
     (case generate_random_string (MAX_SIZE_PER_FIELD cfg) w of
        (Inl e, w') \<Rightarrow> (Inl e, w')
      | (Inr v, w') \<Rightarrow>
          populate_fields cfg temp_doc rest
            (w'\<lparr>heap := (heap w')[temp_doc := AList.update field v (heap w' ! temp_doc)]\<rparr>))"

fun fill_documents_loop ::
  "config \<Rightarrow> nat \<Rightarrow> ref list \<Rightarrow> world \<Rightarrow> (py_exc + unit) \<times> world" where
  "fill_documents_loop cfg 0 documents_templates w = (Inr (), w)"
| "fill_documents_loop cfg (Suc n) documents_templates w =
     (case choice documents_templates (entropy w (draws w)) of
        Inl e \<Rightarrow> (Inl e, w)
      | Inr temp_doc \<Rightarrow>
          (case populate_fields cfg temp_doc (map fst (heap w ! temp_doc))
                  (w\<lparr>draws := draws w + 1\<rparr>) of
             (Inl e, w') \<Rightarrow> (Inl e, w')
           | (Inr u, w') \<Rightarrow>
               fill_documents_loop cfg n documents_templates
                 (w'\<lparr>documents := documents w' @ [temp_doc]\<rparr>)))"

definition fill_documents :: "config \<Rightarrow> ref list \<Rightarrow> world \<Rightarrow> (py_exc + unit) \<times> world" where
  "fill_documents cfg documents_templates w = fill_documents_loop cfg 10 documents_templates w"

text \<open>What a field of a generated document has to satisfy.\<close>

definition field_in_bounds :: "config \<Rightarrow> string \<times> string \<Rightarrow> bool" where
  "field_in_bounds cfg f =
     (lowercase (fst f) \<and> 1 \<le> length (fst f) \<and> length (fst f) \<le> 10 \<and>
      lowercase (snd f) \<and> 1 \<le> length (snd f) \<and>
      int (length (snd f)) \<le> MAX_SIZE_PER_FIELD cfg)"

section \<open>The store client\<close>

text \<open>
  A call of the elasticsearch client is recorded; whether it raises is decided by the
  environment.
\<close>

definition es_request :: "es_call \<Rightarrow> world \<Rightarrow> (py_exc + unit) \<times> world" where
  "es_request c w =
     (if es_raises w (length (es_log w)) then Inl TransportError else Inr (),
      w\<lparr>es_log := es_log w @ [c]\<rparr>)"

section \<open>Indices (lines 266-300)\<close>

fun generate_indices_loop ::
  "config \<Rightarrow> nat \<Rightarrow> string list \<Rightarrow> world \<Rightarrow> (py_exc + string list) \<times> world" where
  "generate_indices_loop cfg 0 temp_indices w = (Inr temp_indices, w)"
| "generate_indices_loop cfg (Suc n) temp_indices w =
     (case generate_random_string 16 w of
        (Inl e, w1) \<Rightarrow> (Inl e, w1)
      | (Inr temp_index, w1) \<Rightarrow>
          (case es_request (IndicesCreate temp_index) w1 of
             (Inl e, w2) \<Rightarrow>
               generate_indices_loop cfg n (temp_indices @ [temp_index])
                 (print_line CouldNotCreateIndex w2)
           | (Inr u, w2) \<Rightarrow>
               generate_indices_loop cfg n (temp_indices @ [temp_index]) w2))"

definition generate_indices :: "config \<Rightarrow> world \<Rightarrow> (py_exc + string list) \<times> world" where
  "generate_indices cfg w = generate_indices_loop cfg (nat (NUMBER_OF_INDICES cfg)) [] w"

fun cleanup_indices :: "string list \<Rightarrow> world \<Rightarrow> world" where
  "cleanup_indices [] w = w"
| "cleanup_indices (curr_index # rest) w =
     (case es_request (IndicesDelete curr_index) w of
        (Inl e, w') \<Rightarrow> cleanup_indices rest (print_line (CouldNotDeleteIndex curr_index) w')
      | (Inr u, w') \<Rightarrow> cleanup_indices rest w')"

section \<open>The worker (lines 157-162 and 209-234)\<close>

text \<open>
  \<open>json.dumps\<close> and \<open>sys.getsizeof\<close> are library functions; the worker is defined for any
  three functions in their place. \<open>json_dumps_action idx\<close> is the serialised bulk action
  for the index \<open>idx\<close>.
\<close>

record pylib =
  json_dumps_action :: "string \<Rightarrow> string"
  json_dumps_doc :: "doc \<Rightarrow> string"
  getsizeof :: "string \<Rightarrow> int"

text \<open>\<open>now\<close> is the value of \<open>int(time.time())\<close> read on line 159.\<close>

definition has_timeout :: "config \<Rightarrow> int \<Rightarrow> int \<Rightarrow> bool" where
  "has_timeout cfg STARTED_TIMESTAMP now =
     (if STARTED_TIMESTAMP + NUMBER_OF_SECONDS cfg > now then False else True)"

text \<open>Lines 213-220: the body of the bulk request, two lines per document.\<close>

fun build_bulk ::
  "pylib \<Rightarrow> nat \<Rightarrow> string list \<Rightarrow> string \<Rightarrow> world \<Rightarrow> (py_exc + string) \<times> world" where
  "build_bulk L 0 indices curr_bulk w = (Inr curr_bulk, w)"
| "build_bulk L (Suc n) indices curr_bulk w =
     (case choice indices (entropy w (draws w)) of
        Inl e \<Rightarrow> (Inl e, w)
      | Inr idx \<Rightarrow>
          (case choice (documents w) (entropy w (draws w + 1)) of
             Inl e \<Rightarrow> (Inl e, w\<lparr>draws := draws w + 1\<rparr>)
           | Inr d \<Rightarrow>
               build_bulk L n indices
                 (curr_bulk @ json_dumps_action L idx @ [CHR 0x0A]
                            @ json_dumps_doc L (heap w ! d) @ [CHR 0x0A])
                 (w\<lparr>draws := draws w + 2\<rparr>)))"

text \<open>
  Lines 213-234, one pass through the body of the loop. An exception of the bulk request is
  caught; one raised while the body is put together is not, and ends the thread. The pass
  is followed for one worker; the increments of the other workers are atomic steps of their
  own and add to the same counters.
\<close>

definition bulk_iteration ::
  "pylib \<Rightarrow> config \<Rightarrow> string list \<Rightarrow> world \<Rightarrow> (py_exc + unit) \<times> world" where
  "bulk_iteration L cfg indices w =
     (case build_bulk L (nat (BULK_SIZE cfg)) indices [] w of
        (Inl e, w1) \<Rightarrow> (Inl e, w1)
      | (Inr curr_bulk, w1) \<Rightarrow>
          (case es_request (Bulk curr_bulk) w1 of
             (Inl e, w2) \<Rightarrow> (Inr (), increment_failure w2)
           | (Inr u, w2) \<Rightarrow>
               (Inr (), increment_size (getsizeof L curr_bulk) (increment_success w2))))"

text \<open>
  The loop of \<open>client_worker\<close>. What the thread cannot decide itself comes as a list with
  one entry per evaluation of the loop condition: the clock read by \<open>has_timeout\<close>, and
  whether the main thread has set \<open>shutdown_event\<close> since the previous evaluation. The
  result is \<open>None\<close> when the list ends before the loop does.
\<close>

fun client_worker ::
  "pylib \<Rightarrow> config \<Rightarrow> string list \<Rightarrow> int \<Rightarrow> (int \<times> bool) list \<Rightarrow> world
     \<Rightarrow> ((py_exc + unit) \<times> world) option" where
  "client_worker L cfg indices STARTED_TIMESTAMP [] w = None"
| "client_worker L cfg indices STARTED_TIMESTAMP ((now, ctrl_c) # later) w =
     (let w0 = (if ctrl_c then w\<lparr>shutdown_event := True\<rparr> else w) in
      if (\<not> has_timeout cfg STARTED_TIMESTAMP now) \<and> (\<not> shutdown_event w0) then
        (case bulk_iteration L cfg indices w0 of
           (Inl e, w1) \<Rightarrow> Some (Inl e, w1)
         | (Inr u, w1) \<Rightarrow> client_worker L cfg indices STARTED_TIMESTAMP later w1)
      else Some (Inr (), w0))"

section \<open>The main thread (lines 343-476)\<close>

text \<open>
  Lines 392-416, the work of \<open>main\<close> for one address once the address is parsed and the
  client object exists: it returns the indices it created and the number of worker threads
  it prepared. Parsing the address and constructing the client are left out.
\<close>

definition init_endpoint :: "config \<Rightarrow> world \<Rightarrow> (py_exc + string list \<times> nat) \<times> world" where
  "init_endpoint cfg w =
     (case generate_documents cfg w of
        (Inl e, w1) \<Rightarrow> (Inl e, w1)
      | (Inr documents_templates, w1) \<Rightarrow>
          (case fill_documents cfg documents_templates w1 of
             (Inl e, w2) \<Rightarrow> (Inl e, w2)
           | (Inr u, w2) \<Rightarrow>
               (case generate_indices cfg (print_line CreatingIndices (print_line Done w2)) of
                  (Inl e, w3) \<Rightarrow> (Inl e, w3)
                | (Inr indices, w3) \<Rightarrow>
                    (if WAIT_FOR_GREEN cfg then
                       (case es_request ClusterHealth w3 of
                          (Inl e, w4) \<Rightarrow>
                            (Inr (indices, 0),
                             cleanup_indices indices
                               (print_line CleaningUp (print_line ClusterTimeout w4)))
                        | (Inr u, w4) \<Rightarrow>
                            (Inr (indices, nat (NUMBER_OF_CLIENTS cfg)),
                             print_line Done (print_line GeneratingWorkers w4)))
                     else
                       (Inr (indices, nat (NUMBER_OF_CLIENTS cfg)),
                        print_line Done (print_line GeneratingWorkers w3))))))"


text \<open>
  Line 448 calls \<open>c.enumerate()\<close> on a \<open>Thread\<close> object. \<open>enumerate\<close> is a function of the
  module \<open>threading\<close>, not an attribute of its \<open>Thread\<close> objects, so evaluating
  \<open>c.enumerate\<close> raises \<open>AttributeError\<close>. Had it a value, it would be the list of threads,
  given here by whether each is alive.
\<close>

definition Thread_enumerate :: "py_exc + bool list" where
  "Thread_enumerate = Inl AttributeError"

text \<open>
  Lines 441-451, the loop that sleeps two seconds and looks for a thread that is alive;
  \<open>fuel\<close> bounds the number of polls.
\<close>

fun wait_until_dead :: "nat \<Rightarrow> world \<Rightarrow> ((py_exc + unit) \<times> world) option" where
  "wait_until_dead 0 w = None"
| "wait_until_dead (Suc fuel) w =
     (case Thread_enumerate of
        Inl e \<Rightarrow> Some (Inl e, w)
      | Inr alive \<Rightarrow>
          (if list_ex (\<lambda>t. t) alive then wait_until_dead fuel w else Some (Inr (), w)))"

text \<open>
  What the main thread meets each time it evaluates the condition of line 432:
  the thread has ended, or it is alive and \<open>join\<close> returns after its timeout, or it is
  alive and \<open>join\<close> is interrupted by \<open>KeyboardInterrupt\<close>.
\<close>

datatype join_event = ThreadEnded | JoinReturns | JoinInterrupted

text \<open>Lines 432-454 for one client thread; the events not consumed are returned.\<close>

fun wait_for_client ::
  "string list \<Rightarrow> nat \<Rightarrow> join_event list \<Rightarrow> world
     \<Rightarrow> ((py_exc + join_event list) \<times> world) option" where
  "wait_for_client all_indecies fuel [] w = None"
| "wait_for_client all_indecies fuel (ThreadEnded # evs) w = Some (Inr evs, w)"
| "wait_for_client all_indecies fuel (JoinReturns # evs) w =
     wait_for_client all_indecies fuel evs w"
| "wait_for_client all_indecies fuel (JoinInterrupted # evs) w =
     (case wait_until_dead fuel
             ((print_line CtrlCReceived (print_line Blank w))\<lparr>shutdown_event := True\<rparr>) of
        None \<Rightarrow> None
      | Some (Inl e, w1) \<Rightarrow> Some (Inl e, w1)
      | Some (Inr u, w1) \<Rightarrow>
          wait_for_client all_indecies fuel evs
            (cleanup_indices all_indecies (print_line CleaningUp w1)))"

text \<open>The loop of line 431 over the client threads, here over their number.\<close>

fun join_clients ::
  "string list \<Rightarrow> nat \<Rightarrow> nat \<Rightarrow> join_event list \<Rightarrow> world
     \<Rightarrow> ((py_exc + unit) \<times> world) option" where
  "join_clients all_indecies fuel 0 evs w = Some (Inr (), w)"
| "join_clients all_indecies fuel (Suc clients) evs w =
     (case wait_for_client all_indecies fuel evs w of
        None \<Rightarrow> None
      | Some (Inl e, w') \<Rightarrow> Some (Inl e, w')
      | Some (Inr evs', w') \<Rightarrow> join_clients all_indecies fuel clients evs' w')"

text \<open>
  Lines 431-465: the rest of \<open>main\<close> once the threads run. \<open>w\<close> holds the counters as the
  workers leave them, \<open>now\<close> is the clock read by the final \<open>print_stats\<close>.
\<close>

definition main_finish ::
  "config \<Rightarrow> string list \<Rightarrow> int \<Rightarrow> int \<Rightarrow> nat \<Rightarrow> nat \<Rightarrow> join_event list \<Rightarrow> world
     \<Rightarrow> ((py_exc + unit) \<times> world) option" where
  "main_finish cfg all_indecies STARTED_TIMESTAMP now fuel clients evs w =
     (case join_clients all_indecies fuel clients evs w of
        None \<Rightarrow> None
      | Some (Inl e, w1) \<Rightarrow> Some (Inl e, w1)
      | Some (Inr u, w1) \<Rightarrow>
          (case print_stats cfg STARTED_TIMESTAMP now (print_line TestIsDone w1) of
             (Inl e, w2) \<Rightarrow> Some (Inl e, w2)
           | (Inr u, w2) \<Rightarrow>
               (if \<not> NO_CLEANUP cfg then
                  Some (Inr (),
                        print_line Done (cleanup_indices all_indecies (print_line CleaningUp w2)))
                else Some (Inr (), w2))))"

text \<open>
  Lines 468-476 and the end of the process: the exit status. \<open>SystemExit\<close> passes the
  \<open>except Exception\<close> clause and carries its status; every other exception is reported and
  the status is 1; a \<open>main\<close> that returns ends the script with status 0.
\<close>

definition script_raised :: "py_exc \<Rightarrow> world \<Rightarrow> int \<times> world" where
  "script_raised e w =
     (case e of
        SystemExit n \<Rightarrow> (n, w)
      | _ \<Rightarrow>
          (1, w\<lparr>stdout := stdout w @ [UnexpectedException, Blank, ExceptionMessage e, Blank]\<rparr>))"

definition script_exit :: "(py_exc + unit) \<times> world \<Rightarrow> int \<times> world" where
  "script_exit r =
     (case r of
        (Inr u, w) \<Rightarrow> (0, w)
      | (Inl e, w) \<Rightarrow> script_raised e w)"

section \<open>The values a run draws\<close>

text \<open>
  The definitions of this section are not translations of the source. They say in closed
  form, as functions of the raw values of the random generator, what a run draws and what
  it does with it, in the words used for the generator and the pool; the functions of the
  source are compared with them below.

  \<open>drawn_int m ent p\<close> is the number that \<open>randint(1, m)\<close> returns when it reads the raw
  value at position \<open>p\<close>: as \<open>ent p\<close> runs through the naturals it runs through 1 to \<open>m\<close>.
  \<open>drawn_string m ent p\<close> is the random string whose length is drawn at position \<open>p\<close> and
  whose characters are drawn at the positions that follow.
\<close>

definition drawn_int :: "int \<Rightarrow> (nat \<Rightarrow> nat) \<Rightarrow> nat \<Rightarrow> int" where
  "drawn_int m ent p = 1 + int (ent p mod nat m)"

definition drawn_string :: "int \<Rightarrow> (nat \<Rightarrow> nat) \<Rightarrow> nat \<Rightarrow> string" where
  "drawn_string m ent p =
     map (\<lambda>i. ascii_lowercase ! (ent i mod length ascii_lowercase))
       [p + 1..<p + 1 + nat (drawn_int m ent p)]"

text \<open>
  The \<open>n\<close> fields drawn for a document from position \<open>p\<close> on, as pairs of key and value in
  the order they are drawn in: for each field the value, then the key.
\<close>

fun drawn_fields :: "config \<Rightarrow> (nat \<Rightarrow> nat) \<Rightarrow> nat \<Rightarrow> nat \<Rightarrow> (string \<times> string) list" where
  "drawn_fields cfg ent 0 p = []"
| "drawn_fields cfg ent (Suc n) p =
     (let v = drawn_string (MAX_SIZE_PER_FIELD cfg) ent p;
          k = drawn_string 10 ent (p + 1 + length v)
      in (k, v) # drawn_fields cfg ent n (p + 1 + length v + 1 + length k))"

text \<open>Storing pairs in a dict one after the other: a later pair replaces an earlier one
  with the same key.\<close>

fun assign_all :: "(string \<times> string) list \<Rightarrow> doc \<Rightarrow> doc" where
  "assign_all [] d = d"
| "assign_all ((k, v) # pairs) d = assign_all pairs (AList.update k v d)"

text \<open>
  The \<open>n\<close> values drawn from position \<open>p\<close> on for the fields of a template, and the position
  reached after them.
\<close>

fun drawn_values :: "config \<Rightarrow> (nat \<Rightarrow> nat) \<Rightarrow> nat \<Rightarrow> nat \<Rightarrow> string list \<times> nat" where
  "drawn_values cfg ent 0 p = ([], p)"
| "drawn_values cfg ent (Suc n) p =
     (let v = drawn_string (MAX_SIZE_PER_FIELD cfg) ent p;
          r = drawn_values cfg ent n (p + 1 + length v)
      in (v # fst r, snd r))"

text \<open>
  One pass of pool construction in these terms: a template is chosen among all templates,
  every one of its fields gets a newly drawn value in the object itself, and the address of
  that object is appended to the pool.
\<close>

definition refill_pass :: "config \<Rightarrow> ref list \<Rightarrow> world \<Rightarrow> world" where
  "refill_pass cfg documents_templates w =
     (let t = documents_templates ! (entropy w (draws w) mod length documents_templates);
          r = drawn_values cfg (entropy w) (length (heap w ! t)) (draws w + 1)
      in w\<lparr>draws := snd r,
           heap := (heap w)[t := zip (map fst (heap w ! t)) (fst r)],
           documents := documents w @ [t]\<rparr>)"

section \<open>Sample inputs\<close>

definition sample_config :: config where
  "sample_config =
     \<lparr>NUMBER_OF_INDICES = 1, NUMBER_OF_DOCUMENTS = 1, NUMBER_OF_CLIENTS = 1,
      NUMBER_OF_SECONDS = 60, BULK_SIZE = 1, MAX_FIELDS_PER_DOCUMENT = 2,
      MAX_SIZE_PER_FIELD = 1, NO_CLEANUP = False, STATS_FREQUENCY = 30,
      WAIT_FOR_GREEN = True\<rparr>"

text \<open>
  A library for the examples: \<open>json.dumps\<close> with its default separators on the strings the
  script produces, which need no escaping, and \<open>sys.getsizeof\<close> of a Python 2 \<open>str\<close> on a
  64-bit CPython, an object header of 37 bytes followed by the characters.
\<close>

definition json_string :: "string \<Rightarrow> string" where
  "json_string s = [CHR 0x22] @ s @ [CHR 0x22]"

fun json_members :: "doc \<Rightarrow> string" where
  "json_members [] = []"
| "json_members [(k, v)] = json_string k @ '': '' @ json_string v"
| "json_members ((k, v) # rest) = json_string k @ '': '' @ json_string v @ '', '' @ json_members rest"

definition sample_lib :: pylib where
  "sample_lib =
     \<lparr>json_dumps_action = (\<lambda>idx.
        ''{'' @ json_string ''index'' @ '': {'' @ json_string ''_index'' @ '': ''
          @ json_string idx @ '', '' @ json_string ''_type'' @ '': ''
          @ json_string ''stresstest'' @ ''}}''),
      json_dumps_doc = (\<lambda>d. ''{'' @ json_members d @ ''}''),
      getsizeof = (\<lambda>s. 37 + int (length s))\<rparr>"

text \<open>The state of a fresh process, for a given random generator and a given store.\<close>

definition start_world :: "(nat \<Rightarrow> nat) \<Rightarrow> (nat \<Rightarrow> bool) \<Rightarrow> world" where
  "start_world ent fails =
     \<lparr>entropy = ent, draws = 0, heap = [], documents = [], success_bulks = 0,
      failed_bulks = 0, total_size = 0, shutdown_event = False, es_raises = fails,
      es_log = [], stdout = []\<rparr>"

text \<open>A state in which the pool holds one document with one field.\<close>

definition sample_pool_world :: "(nat \<Rightarrow> bool) \<Rightarrow> world" where
  "sample_pool_world fails =
     (start_world (\<lambda>i. 0) fails)\<lparr>heap := [[(''a'', ''b'')]], documents := [0]\<rparr>"

text \<open>The body of the bulk request for that document and the index \<open>idx\<close>.\<close>

definition sample_bulk :: string where
  "sample_bulk =
     json_dumps_action sample_lib ''idx'' @ [CHR 0x0A]
       @ json_dumps_doc sample_lib [(''a'', ''b'')] @ [CHR 0x0A]"

text \<open>
  The templates of one address for \<open>sample_config\<close>, which asks for one document, when the
  random generator returns 0, 1, 2, ...; and the state after \<open>fill_documents\<close>.
\<close>

definition sample_templates_world :: world where
  "sample_templates_world =
     snd (generate_documents sample_config (start_world (\<lambda>i. i) (\<lambda>k. False)))"

definition sample_filled_world :: world where
  "sample_filled_world = snd (fill_documents sample_config [0] sample_templates_world)"

section \<open>Properties of the statistics\<close>

text \<open>
  C6. With 10 successful bulks, 2 failed bulks, 10485760 bytes, 5 seconds elapsed and a bulk
  size of 1000, the statistics report 10000 successful documents, 10 megabytes and
  2 megabytes per second (together with the 5 seconds, the two bulk counts and the 2000
  failed documents).
\<close>

theorem print_stats_example:
  "print_stats (cfg\<lparr>BULK_SIZE := 1000\<rparr>) t0 (t0 + 5)
     (w\<lparr>success_bulks := 10, failed_bulks := 2, total_size := 10485760\<rparr>)
   = (Inr (),
      w\<lparr>success_bulks := 10, failed_bulks := 2, total_size := 10485760,
        stdout := stdout w @
          [ElapsedTime 5, SuccessfulBulks 10 10000, FailedBulks 2 2000, Indexed 10 2, Blank]\<rparr>)"
  by (simp add: print_stats_def truediv_def)

text \<open>
  C7. With zero seconds elapsed the statistics are printed with a rate of 0, whatever the
  byte counter holds, and no elapsed time at all makes the computation raise.
\<close>

theorem print_stats_elapsed_zero:
  "print_stats cfg t0 t0 w =
     (Inr (),
      w\<lparr>stdout := stdout w @
          [ElapsedTime 0,
           SuccessfulBulks (success_bulks w) (success_bulks w * BULK_SIZE cfg),
           FailedBulks (failed_bulks w) (failed_bulks w * BULK_SIZE cfg),
           Indexed (total_size w div 1024 div 1024) 0,
           Blank]\<rparr>)
   \<and> fst (print_stats cfg t0 now w) = Inr ()"
  by (simp add: print_stats_def truediv_def Let_def)


section \<open>Properties of the random values\<close>

lemma generate_random_int_ok:
  assumes "1 \<le> m"
  shows "\<exists>n. generate_random_int m w = (Inr n, w\<lparr>draws := draws w + 1\<rparr>) \<and> 1 \<le> n \<and> n \<le> m
           \<and> n = 1 + int (entropy w (draws w) mod nat m)"
proof -
  have "entropy w (draws w) mod nat m < nat m" using assms by simp
  then have "int (entropy w (draws w) mod nat m) \<le> m - 1" using assms by linarith
  then show ?thesis using assms by (simp add: generate_random_int_def randint_def)
qed

lemma choice_ok:
  "xs \<noteq> [] \<Longrightarrow> \<exists>x. choice xs r = Inr x \<and> x \<in> set xs"
  by (simp add: choice_def)

lemma choice_lowercase:
  "\<exists>c. choice ascii_lowercase r = Inr c \<and> c \<in> set ascii_lowercase"
proof -
  have "ascii_lowercase \<noteq> []" by (simp add: ascii_lowercase_def)
  then show ?thesis by (rule choice_ok)
qed

lemma random_chars_ok:
  "\<exists>s. random_chars n w = (Inr s, w\<lparr>draws := draws w + n\<rparr>) \<and> length s = n \<and> lowercase s"
proof (induction n arbitrary: w)
  case 0
  show ?case by (simp add: lowercase_def)
next
  case (Suc n)
  obtain c where c: "choice ascii_lowercase (entropy w (draws w)) = Inr c" "c \<in> set ascii_lowercase"
    using choice_lowercase by blast
  obtain s where s: "random_chars n (w\<lparr>draws := draws w + 1\<rparr>) = (Inr s, w\<lparr>draws := draws w + 1 + n\<rparr>)"
     "length s = n" "lowercase s"
    using Suc.IH[of "w\<lparr>draws := draws w + 1\<rparr>"] by auto
  show ?case using c s by (simp add: lowercase_def)
qed

lemma generate_random_string_ok:
  assumes "1 \<le> m"
  shows "\<exists>s k. generate_random_string m w = (Inr s, w\<lparr>draws := draws w + k\<rparr>)
           \<and> 1 \<le> length s \<and> int (length s) \<le> m \<and> lowercase s"
proof -
  obtain n where n: "generate_random_int m w = (Inr n, w\<lparr>draws := draws w + 1\<rparr>)" "1 \<le> n" "n \<le> m"
    using generate_random_int_ok[OF assms] by blast
  obtain s where s: "random_chars (nat n) (w\<lparr>draws := draws w + 1\<rparr>) = (Inr s, w\<lparr>draws := draws w + 1 + nat n\<rparr>)"
     "length s = nat n" "lowercase s"
    using random_chars_ok[of "nat n" "w\<lparr>draws := draws w + 1\<rparr>"] by auto
  show ?thesis using n s by (auto simp: generate_random_string_def intro!: exI[of _ "1 + nat n"])
qed

section \<open>Properties of document generation\<close>

lemma length_update_le: "length (AList.update k v al) \<le> Suc (length al)"
  by (induction al) auto

lemma length_update_ge: "length al \<le> length (AList.update k v al)"
  by (induction al) auto

lemma list_all_update:
  "list_all P al \<Longrightarrow> P (k, v) \<Longrightarrow> list_all P (AList.update k v al)"
  by (induction al) auto

lemma add_fields_ok:
  assumes "1 \<le> MAX_SIZE_PER_FIELD cfg"
    and "list_all (field_in_bounds cfg) d" and "distinct (map fst d)"
  shows "\<exists>d' k. add_fields cfg n d w = (Inr d', w\<lparr>draws := draws w + k\<rparr>)
           \<and> list_all (field_in_bounds cfg) d' \<and> distinct (map fst d')
           \<and> length d \<le> length d' \<and> length d' \<le> length d + n \<and> (0 < n \<longrightarrow> d' \<noteq> [])"
  using assms(2,3)
proof (induction n arbitrary: d w)
  case 0
  then show ?case by (auto intro: exI[of _ 0])
next
  case (Suc n)
  obtain v k1 where v: "generate_random_string (MAX_SIZE_PER_FIELD cfg) w = (Inr v, w\<lparr>draws := draws w + k1\<rparr>)"
      "1 \<le> length v" "int (length v) \<le> MAX_SIZE_PER_FIELD cfg" "lowercase v"
    using generate_random_string_ok[OF assms(1), of w] by blast
  obtain k k2 where k: "generate_random_string 10 (w\<lparr>draws := draws w + k1\<rparr>) = (Inr k, w\<lparr>draws := draws w + k1 + k2\<rparr>)"
      "1 \<le> length k" "int (length k) \<le> 10" "lowercase k"
    using generate_random_string_ok[of 10 "w\<lparr>draws := draws w + k1\<rparr>"] by auto
  let ?d = "AList.update k v d"
  have "field_in_bounds cfg (k, v)" using v(2-4) k(2-4) by (simp add: field_in_bounds_def)
  then have ok: "list_all (field_in_bounds cfg) ?d"
    using Suc.prems(1) by (simp add: list_all_update)
  have dist: "distinct (map fst ?d)" using Suc.prems(2) by (rule distinct_update)
  obtain d' k3 where d': "add_fields cfg n ?d (w\<lparr>draws := draws w + k1 + k2\<rparr>) = (Inr d', w\<lparr>draws := draws w + k1 + k2 + k3\<rparr>)"
      "list_all (field_in_bounds cfg) d'" "distinct (map fst d')"
      "length ?d \<le> length d'" "length d' \<le> length ?d + n"
    using Suc.IH[OF ok dist, of "w\<lparr>draws := draws w + k1 + k2\<rparr>"] by auto
  have ne: "d' \<noteq> []" using d'(4) by (cases d') auto
  have l1: "length d \<le> length d'" using d'(4) length_update_ge[of d k v] by linarith
  have l2: "length d' \<le> length d + Suc n" using d'(5) length_update_le[of k v d] by linarith
  have "add_fields cfg (Suc n) d w = (Inr d', w\<lparr>draws := draws w + (k1 + k2 + k3)\<rparr>)"
    using v(1) k(1) d'(1) by (simp add: add.assoc)
  then show ?case using d'(2,3) ne l1 l2 by blast
qed

lemma generate_random_int_drawn:
  assumes "1 \<le> m"
  shows "generate_random_int m w =
           (Inr (drawn_int m (entropy w) (draws w)), w\<lparr>draws := draws w + 1\<rparr>)
         \<and> 1 \<le> drawn_int m (entropy w) (draws w) \<and> drawn_int m (entropy w) (draws w) \<le> m"
  using generate_random_int_ok[OF assms, of w] by (auto simp: drawn_int_def)

lemma random_chars_drawn:
  "random_chars n w =
     (Inr (map (\<lambda>i. ascii_lowercase ! (entropy w i mod length ascii_lowercase))
             [draws w..<draws w + n]),
      w\<lparr>draws := draws w + n\<rparr>)"
proof (induction n arbitrary: w)
  case 0
  show ?case by simp
next
  case (Suc n)
  have ne: "ascii_lowercase \<noteq> []" by (simp add: ascii_lowercase_def)
  have u: "[draws w..<draws w + Suc n] = draws w # [Suc (draws w)..<Suc (draws w) + n]"
    by (simp add: upt_conv_Cons)
  show ?case
    using ne Suc.IH[of "w\<lparr>draws := draws w + 1\<rparr>"] u
    by (simp add: choice_def)
qed

lemma drawn_string_length: "length (drawn_string m ent p) = nat (drawn_int m ent p)"
  by (simp add: drawn_string_def)

lemma generate_random_string_drawn:
  assumes "1 \<le> m"
  shows "generate_random_string m w =
           (Inr (drawn_string m (entropy w) (draws w)),
            w\<lparr>draws := draws w + 1 + length (drawn_string m (entropy w) (draws w))\<rparr>)"
proof -
  let ?n = "drawn_int m (entropy w) (draws w)"
  let ?w1 = "w\<lparr>draws := draws w + 1\<rparr>"
  have g: "generate_random_int m w = (Inr ?n, ?w1)"
    using generate_random_int_drawn[OF assms, of w] by simp
  have s: "map (\<lambda>i. ascii_lowercase ! (entropy ?w1 i mod length ascii_lowercase))
             [draws ?w1..<draws ?w1 + nat ?n] = drawn_string m (entropy w) (draws w)"
    unfolding drawn_string_def by simp
  have e: "?w1\<lparr>draws := draws ?w1 + nat ?n\<rparr> =
      w\<lparr>draws := draws w + 1 + length (drawn_string m (entropy w) (draws w))\<rparr>"
    by (simp add: drawn_string_length)
  have "generate_random_string m w = random_chars (nat ?n) ?w1"
    using g by (simp add: generate_random_string_def)
  also have "\<dots> = (Inr (map (\<lambda>i. ascii_lowercase ! (entropy ?w1 i mod length ascii_lowercase))
             [draws ?w1..<draws ?w1 + nat ?n]), ?w1\<lparr>draws := draws ?w1 + nat ?n\<rparr>)"
    by (rule random_chars_drawn)
  finally show ?thesis using s e by simp
qed

lemma drawn_string_bounds:
  assumes "1 \<le> m"
  shows "1 \<le> length (drawn_string m ent p) \<and> int (length (drawn_string m ent p)) \<le> m
         \<and> lowercase (drawn_string m ent p)"
proof -
  have "ent p mod nat m < nat m" using assms by simp
  then have "int (ent p mod nat m) \<le> m - 1" using assms by linarith
  then have b: "1 \<le> nat (drawn_int m ent p)" "int (nat (drawn_int m ent p)) \<le> m"
    by (simp_all add: drawn_int_def)
  have ne: "ascii_lowercase \<noteq> []" by (simp add: ascii_lowercase_def)
  have "lowercase (drawn_string m ent p)"
    using ne by (simp add: lowercase_def drawn_string_def list_all_iff)
  then show ?thesis using b by (simp add: drawn_string_length)
qed

lemma add_fields_drawn:
  assumes "1 \<le> MAX_SIZE_PER_FIELD cfg"
  shows "\<exists>k. add_fields cfg n d w =
           (Inr (assign_all (drawn_fields cfg (entropy w) n (draws w)) d),
            w\<lparr>draws := draws w + k\<rparr>)"
proof (induction n arbitrary: d w)
  case 0
  have "add_fields cfg 0 d w =
      (Inr (assign_all (drawn_fields cfg (entropy w) 0 (draws w)) d), w\<lparr>draws := draws w + 0\<rparr>)"
    by simp
  then show ?case by blast
next
  case (Suc n)
  let ?v = "drawn_string (MAX_SIZE_PER_FIELD cfg) (entropy w) (draws w)"
  let ?p1 = "draws w + 1 + length ?v"
  let ?k = "drawn_string 10 (entropy w) ?p1"
  let ?p2 = "?p1 + 1 + length ?k"
  have v: "generate_random_string (MAX_SIZE_PER_FIELD cfg) w = (Inr ?v, w\<lparr>draws := ?p1\<rparr>)"
    using generate_random_string_drawn[OF assms, of w] by simp
  have k: "generate_random_string 10 (w\<lparr>draws := ?p1\<rparr>) = (Inr ?k, w\<lparr>draws := ?p2\<rparr>)"
    using generate_random_string_drawn[of 10 "w\<lparr>draws := ?p1\<rparr>"] by simp
  obtain j where j: "add_fields cfg n (AList.update ?k ?v d) (w\<lparr>draws := ?p2\<rparr>) =
      (Inr (assign_all (drawn_fields cfg (entropy w) n ?p2) (AList.update ?k ?v d)),
       w\<lparr>draws := ?p2 + j\<rparr>)"
    using Suc.IH[of "AList.update ?k ?v d" "w\<lparr>draws := ?p2\<rparr>"] by auto
  have "add_fields cfg (Suc n) d w =
      (Inr (assign_all (drawn_fields cfg (entropy w) (Suc n) (draws w)) d),
       w\<lparr>draws := draws w + (1 + length ?v + 1 + length ?k + j)\<rparr>)"
    using v k j by (simp add: Let_def add.assoc)
  then show ?case by blast
qed

lemma drawn_fields_length: "length (drawn_fields cfg ent n p) = n"
  by (induction n arbitrary: p) (simp_all add: Let_def)

lemma drawn_fields_bounds:
  assumes "1 \<le> MAX_SIZE_PER_FIELD cfg"
  shows "list_all (field_in_bounds cfg) (drawn_fields cfg ent n p)"
proof (induction n arbitrary: p)
  case 0
  show ?case by simp
next
  case (Suc n)
  show ?case
    using Suc.IH drawn_string_bounds[OF assms] drawn_string_bounds[of 10]
    by (simp add: Let_def field_in_bounds_def)
qed

lemma assign_all_keys:
  "fst ` set (assign_all pairs d) = fst ` set d \<union> fst ` set pairs"
  by (induction pairs d rule: assign_all.induct) (auto simp: dom_update)

lemma assign_all_distinct:
  "distinct (map fst d) \<Longrightarrow> distinct (map fst (assign_all pairs d))"
  by (induction pairs d rule: assign_all.induct) (auto simp: distinct_update)

lemma assign_all_bounds:
  "list_all P d \<Longrightarrow> list_all P pairs \<Longrightarrow> list_all P (assign_all pairs d)"
  by (induction pairs d rule: assign_all.induct) (auto simp: list_all_update)

lemma assign_all_count:
  "length (assign_all pairs []) = card (fst ` set pairs)"
proof -
  have "distinct (map fst (assign_all pairs []))" by (simp add: assign_all_distinct)
  then have "card (set (map fst (assign_all pairs []))) = length (map fst (assign_all pairs []))"
    by (rule distinct_card)
  then have "length (assign_all pairs []) = card (fst ` set (assign_all pairs []))"
    by simp
  then show ?thesis by (simp add: assign_all_keys)
qed

text \<open>
  C4, as amended. For every maximum field count and maximum field size of at least 1,
  \<open>generate_document\<close> draws a number from 1 to the maximum field count, draws that many
  pairs of a key and a value, every key a lowercase string of 1 to 10 characters and every
  value a lowercase string of 1 to the maximum field size characters, and returns a new
  document holding these pairs, a later pair replacing an earlier one with the same key.
  The field count of the document is the number of distinct keys among the pairs drawn: it
  is the number drawn when the keys differ, and at least 1 and at most the number drawn in
  any case.
\<close>

theorem generate_document_fields:
  assumes "1 \<le> MAX_FIELDS_PER_DOCUMENT cfg" and "1 \<le> MAX_SIZE_PER_FIELD cfg"
  shows "let n = drawn_int (MAX_FIELDS_PER_DOCUMENT cfg) (entropy w) (draws w);
             pairs = drawn_fields cfg (entropy w) (nat n) (draws w + 1);
             d = assign_all pairs []
         in (\<exists>k. generate_document cfg w =
                  (Inr (length (heap w)), w\<lparr>draws := draws w + k, heap := heap w @ [d]\<rparr>))
            \<and> 1 \<le> n \<and> n \<le> MAX_FIELDS_PER_DOCUMENT cfg
            \<and> int (length pairs) = n
            \<and> list_all (field_in_bounds cfg) pairs
            \<and> length d = card (fst ` set pairs)
            \<and> (distinct (map fst pairs) \<longrightarrow> int (length d) = n)
            \<and> 1 \<le> length d
            \<and> int (length d) \<le> n
            \<and> int (length d) \<le> MAX_FIELDS_PER_DOCUMENT cfg
            \<and> distinct (map fst d)
            \<and> list_all (field_in_bounds cfg) d"
proof -
  define n where "n = drawn_int (MAX_FIELDS_PER_DOCUMENT cfg) (entropy w) (draws w)"
  define pairs where "pairs = drawn_fields cfg (entropy w) (nat n) (draws w + 1)"
  define d where "d = assign_all pairs []"
  have g: "generate_random_int (MAX_FIELDS_PER_DOCUMENT cfg) w = (Inr n, w\<lparr>draws := draws w + 1\<rparr>)"
    and n1: "1 \<le> n" and n2: "n \<le> MAX_FIELDS_PER_DOCUMENT cfg"
    using generate_random_int_drawn[OF assms(1), of w] by (simp_all add: n_def)
  obtain k where a: "add_fields cfg (nat n) [] (w\<lparr>draws := draws w + 1\<rparr>) =
      (Inr d, w\<lparr>draws := draws w + 1 + k\<rparr>)"
    using add_fields_drawn[OF assms(2), of "nat n" "[]" "w\<lparr>draws := draws w + 1\<rparr>"]
    by (auto simp: d_def pairs_def)
  have "generate_document cfg w =
      (Inr (length (heap w)), w\<lparr>draws := draws w + (1 + k), heap := heap w @ [d]\<rparr>)"
    using g a by (simp add: generate_document_def add.assoc)
  then have run: "\<exists>k. generate_document cfg w =
      (Inr (length (heap w)), w\<lparr>draws := draws w + k, heap := heap w @ [d]\<rparr>)"
    by blast
  have len: "length pairs = nat n" by (simp add: pairs_def drawn_fields_length)
  then have lenp: "int (length pairs) = n" using n1 by simp
  have bp: "list_all (field_in_bounds cfg) pairs"
    by (simp add: pairs_def drawn_fields_bounds[OF assms(2)])
  have cnt: "length d = card (fst ` set pairs)" by (simp add: d_def assign_all_count)
  have ne: "pairs \<noteq> []" using len n1 by auto
  have "card (fst ` set pairs) \<le> card (set pairs)" by (simp add: card_image_le)
  also have "\<dots> \<le> length pairs" by (rule card_length)
  finally have up: "int (length d) \<le> n" using cnt lenp by simp
  have "fst ` set pairs \<noteq> {}" using ne by simp
  then have "0 < card (fst ` set pairs)" by (simp add: card_gt_0_iff)
  then have lo: "1 \<le> length d" using cnt by simp
  have eq: "distinct (map fst pairs) \<longrightarrow> int (length d) = n"
  proof
    assume "distinct (map fst pairs)"
    then have "card (set (map fst pairs)) = length (map fst pairs)" by (rule distinct_card)
    then show "int (length d) = n" using cnt lenp by simp
  qed
  have dd: "distinct (map fst d)" by (simp add: d_def assign_all_distinct)
  have bd: "list_all (field_in_bounds cfg) d" using bp by (simp add: d_def assign_all_bounds)
  have mx: "int (length d) \<le> MAX_FIELDS_PER_DOCUMENT cfg" using up n2 by simp
  show ?thesis
    unfolding Let_def
    using run n1 n2 lenp bp cnt eq lo up mx dd bd
    unfolding n_def pairs_def d_def by blast
qed

theorem generate_document_fields_witness:
  "1 \<le> MAX_FIELDS_PER_DOCUMENT sample_config \<and> 1 \<le> MAX_SIZE_PER_FIELD sample_config
   \<and> drawn_int (MAX_FIELDS_PER_DOCUMENT sample_config) Suc 0 = 2
   \<and> drawn_fields sample_config Suc (nat 2) (0 + 1) = [(''fghij'', ''d''), (''nop'', ''l'')]
   \<and> (\<exists>k. generate_document sample_config (start_world Suc (\<lambda>k. False)) =
          (Inr 0, (start_world Suc (\<lambda>k. False))
                    \<lparr>draws := k, heap := [[(''fghij'', ''d''), (''nop'', ''l'')]]\<rparr>))
   \<and> list_all (field_in_bounds sample_config) [(''fghij'', ''d''), (''nop'', ''l'')]"
proof -
  have h1: "1 \<le> MAX_FIELDS_PER_DOCUMENT sample_config" by (simp add: sample_config_def)
  have h2: "1 \<le> MAX_SIZE_PER_FIELD sample_config" by (simp add: sample_config_def)
  have e: "entropy (start_world Suc (\<lambda>k. False)) = Suc"
    "draws (start_world Suc (\<lambda>k. False)) = 0"
    "heap (start_world Suc (\<lambda>k. False)) = []"
    by (simp_all add: start_world_def)
  have n: "drawn_int (MAX_FIELDS_PER_DOCUMENT sample_config) Suc 0 = 2"
    by code_simp
  have p: "drawn_fields sample_config Suc (nat 2) (0 + 1) = [(''fghij'', ''d''), (''nop'', ''l'')]"
    by code_simp
  have a: "assign_all [(''fghij'', ''d''), (''nop'', ''l'')] [] = [(''fghij'', ''d''), (''nop'', ''l'')]"
    by simp
  have t: "(\<exists>k. generate_document sample_config (start_world Suc (\<lambda>k. False)) =
          (Inr (length ([] :: doc list)), (start_world Suc (\<lambda>k. False))
             \<lparr>draws := 0 + k, heap := [] @ [[(''fghij'', ''d''), (''nop'', ''l'')]]\<rparr>))
     \<and> list_all (field_in_bounds sample_config) [(''fghij'', ''d''), (''nop'', ''l'')]"
    using generate_document_fields [OF h1 h2, of "start_world Suc (\<lambda>k. False)"]
    unfolding Let_def e n p a by blast
  show ?thesis using h1 h2 n p t by simp
qed

text \<open>
  C4 as stated fails: the field count is not the uniformly drawn number. Here \<open>randint\<close>
  returns 2 for the field count, both keys come out as \<open>a\<close>, and the document has a single
  field. The count can only fall below the drawn number, never exceed it, so under uniform
  draws a document with the maximum number of fields is less likely than one in
  \<open>MAX_FIELDS_PER_DOCUMENT\<close>.
\<close>

theorem generate_document_count_counterexample:
  "fst (generate_random_int (MAX_FIELDS_PER_DOCUMENT sample_config)
          (start_world (\<lambda>i. if i = 0 then 1 else 0) (\<lambda>k. False))) = Inr 2
   \<and> heap (snd (generate_document sample_config
          (start_world (\<lambda>i. if i = 0 then 1 else 0) (\<lambda>k. False)))) = [[(''a'', ''a'')]]"
  by code_simp


section \<open>Properties of the worker\<close>

lemma build_bulk_world:
  "build_bulk L n indices b w = (r, w') \<Longrightarrow> \<exists>k. w' = w\<lparr>draws := draws w + k\<rparr>"
proof (induction n arbitrary: b w)
  case 0
  then have "w' = w\<lparr>draws := draws w + 0\<rparr>" by simp
  then show ?case by blast
next
  case (Suc n)
  show ?case
  proof (cases "choice indices (entropy w (draws w))")
    case (Inl e)
    with Suc.prems have "w' = w\<lparr>draws := draws w + 0\<rparr>" by simp
    then show ?thesis by blast
  next
    case idx: (Inr idx)
    show ?thesis
    proof (cases "choice (documents w) (entropy w (draws w + 1))")
      case (Inl e)
      with idx Suc.prems have "w' = w\<lparr>draws := draws w + 1\<rparr>" by simp
      then show ?thesis by blast
    next
      case (Inr d)
      with idx Suc.prems obtain k where "w' = (w\<lparr>draws := draws w + 2\<rparr>)\<lparr>draws := draws (w\<lparr>draws := draws w + 2\<rparr>) + k\<rparr>"
        using Suc.IH by fastforce
      then have "w' = w\<lparr>draws := draws w + (2 + k)\<rparr>" by (simp add: add.assoc)
      then show ?thesis by blast
    qed
  qed
qed


lemma sample_build_bulk:
  "build_bulk sample_lib (nat (BULK_SIZE sample_config)) [''idx''] [] (sample_pool_world fails)
     = (Inr sample_bulk, (sample_pool_world fails)\<lparr>draws := 2\<rparr>)"
  by (simp add: sample_config_def sample_pool_world_def start_world_def choice_def
        sample_bulk_def)

lemma sample_bulk_length: "length sample_bulk = 63"
  by (simp add: sample_bulk_def sample_lib_def json_string_def)

lemma sample_bulk_iteration:
  "bulk_iteration sample_lib sample_config [''idx''] (sample_pool_world (\<lambda>k. False)) =
     (Inr (), (sample_pool_world (\<lambda>k. False))
                \<lparr>draws := 2, es_log := [Bulk sample_bulk], success_bulks := 1,
                 total_size := getsizeof sample_lib sample_bulk\<rparr>)"
  by (simp add: bulk_iteration_def sample_build_bulk es_request_def increment_success_def
        increment_size_def)
     (simp add: sample_pool_world_def start_world_def)

text \<open>
  C2. In a pass through the loop of the worker in which the bulk request raises, the failure
  counter grows by one, the request is made once and not repeated, the success counter and
  the byte counter keep their values, and the worker goes on to evaluate the loop condition
  again.
\<close>

theorem failed_bulk_counted_once:
  assumes "\<not> has_timeout cfg t0 now" and "\<not> ctrl_c" and "\<not> shutdown_event w"
    and "build_bulk L (nat (BULK_SIZE cfg)) indices [] w = (Inr curr_bulk, w1)"
    and "es_raises w (length (es_log w))"
  shows "bulk_iteration L cfg indices w =
           (Inr (), w\<lparr>draws := draws w1, es_log := es_log w @ [Bulk curr_bulk],
                      failed_bulks := failed_bulks w + 1\<rparr>)
       \<and> client_worker L cfg indices t0 ((now, ctrl_c) # later) w =
           client_worker L cfg indices t0 later
             (w\<lparr>draws := draws w1, es_log := es_log w @ [Bulk curr_bulk],
                failed_bulks := failed_bulks w + 1\<rparr>)"
proof -
  obtain k where w1: "w1 = w\<lparr>draws := draws w + k\<rparr>"
    using build_bulk_world[OF assms(4)] by blast
  have it: "bulk_iteration L cfg indices w =
           (Inr (), w\<lparr>draws := draws w1, es_log := es_log w @ [Bulk curr_bulk],
                      failed_bulks := failed_bulks w + 1\<rparr>)"
    using assms(4,5) w1 by (simp add: bulk_iteration_def es_request_def increment_failure_def)
  show ?thesis using it assms(1-3) by simp
qed

theorem failed_bulk_counted_once_witness:
  "\<not> has_timeout sample_config 0 10
   \<and> \<not> shutdown_event (sample_pool_world (\<lambda>k. True))
   \<and> es_raises (sample_pool_world (\<lambda>k. True)) (length (es_log (sample_pool_world (\<lambda>k. True))))
   \<and> bulk_iteration sample_lib sample_config [''idx''] (sample_pool_world (\<lambda>k. True)) =
       (Inr (), (sample_pool_world (\<lambda>k. True))
                  \<lparr>draws := 2, es_log := [Bulk sample_bulk], failed_bulks := 1\<rparr>)
   \<and> client_worker sample_lib sample_config [''idx''] 0 [(10, False), (60, False)]
        (sample_pool_world (\<lambda>k. True)) =
       Some (Inr (), (sample_pool_world (\<lambda>k. True))
                  \<lparr>draws := 2, es_log := [Bulk sample_bulk], failed_bulks := 1\<rparr>)"
proof -
  have h1: "\<not> has_timeout sample_config 0 10"
    by (simp add: has_timeout_def sample_config_def)
  have h2: "\<not> False" by simp
  have h3: "\<not> shutdown_event (sample_pool_world (\<lambda>k. True))"
    by (simp add: sample_pool_world_def start_world_def)
  have h5: "es_raises (sample_pool_world (\<lambda>k. True)) (length (es_log (sample_pool_world (\<lambda>k. True))))"
    by (simp add: sample_pool_world_def start_world_def)
  have t: "has_timeout sample_config 0 60" by (simp add: has_timeout_def sample_config_def)
  show ?thesis
    using h1 h3 h5 t
      failed_bulk_counted_once [OF h1 h2 h3 sample_build_bulk h5, of "[(60, False)]"]
    by (simp add: sample_pool_world_def start_world_def)
qed



text \<open>
  C9, as amended. In a pass through the loop of the worker in which the bulk request returns,
  the success counter grows by one and the byte counter grows by what \<open>sys.getsizeof\<close>
  returns for the body of the request, the failure counter keeps its value, and the worker
  goes on to evaluate the loop condition again.
\<close>

theorem successful_bulk_counted:
  assumes "\<not> has_timeout cfg t0 now" and "\<not> ctrl_c" and "\<not> shutdown_event w"
    and "build_bulk L (nat (BULK_SIZE cfg)) indices [] w = (Inr curr_bulk, w1)"
    and "\<not> es_raises w (length (es_log w))"
  shows "bulk_iteration L cfg indices w =
           (Inr (), w\<lparr>draws := draws w1, es_log := es_log w @ [Bulk curr_bulk],
                      success_bulks := success_bulks w + 1,
                      total_size := total_size w + getsizeof L curr_bulk\<rparr>)
       \<and> client_worker L cfg indices t0 ((now, ctrl_c) # later) w =
           client_worker L cfg indices t0 later
             (w\<lparr>draws := draws w1, es_log := es_log w @ [Bulk curr_bulk],
                success_bulks := success_bulks w + 1,
                total_size := total_size w + getsizeof L curr_bulk\<rparr>)"
proof -
  obtain k where w1: "w1 = w\<lparr>draws := draws w + k\<rparr>"
    using build_bulk_world[OF assms(4)] by blast
  have it: "bulk_iteration L cfg indices w =
           (Inr (), w\<lparr>draws := draws w1, es_log := es_log w @ [Bulk curr_bulk],
                      success_bulks := success_bulks w + 1,
                      total_size := total_size w + getsizeof L curr_bulk\<rparr>)"
    using assms(4,5) w1
    by (simp add: bulk_iteration_def es_request_def increment_success_def increment_size_def)
  show ?thesis using it assms(1-3) by simp
qed

theorem successful_bulk_counted_witness:
  "\<not> has_timeout sample_config 0 10
   \<and> \<not> shutdown_event (sample_pool_world (\<lambda>k. False))
   \<and> \<not> es_raises (sample_pool_world (\<lambda>k. False)) (length (es_log (sample_pool_world (\<lambda>k. False))))
   \<and> bulk_iteration sample_lib sample_config [''idx''] (sample_pool_world (\<lambda>k. False)) =
       (Inr (), (sample_pool_world (\<lambda>k. False))
                  \<lparr>draws := 2, es_log := [Bulk sample_bulk], success_bulks := 1,
                   total_size := getsizeof sample_lib sample_bulk\<rparr>)
   \<and> client_worker sample_lib sample_config [''idx''] 0 [(10, False), (60, False)]
        (sample_pool_world (\<lambda>k. False)) =
       Some (Inr (), (sample_pool_world (\<lambda>k. False))
                  \<lparr>draws := 2, es_log := [Bulk sample_bulk], success_bulks := 1,
                   total_size := getsizeof sample_lib sample_bulk\<rparr>)"
proof -
  have h1: "\<not> has_timeout sample_config 0 10"
    by (simp add: has_timeout_def sample_config_def)
  have h2: "\<not> False" by simp
  have h3: "\<not> shutdown_event (sample_pool_world (\<lambda>k. False))"
    by (simp add: sample_pool_world_def start_world_def)
  have h5: "\<not> es_raises (sample_pool_world (\<lambda>k. False)) (length (es_log (sample_pool_world (\<lambda>k. False))))"
    by (simp add: sample_pool_world_def start_world_def)
  have t: "has_timeout sample_config 0 60" by (simp add: has_timeout_def sample_config_def)
  show ?thesis
    using h1 h3 h5 t
      successful_bulk_counted [OF h1 h2 h3 sample_build_bulk h5, of "[(60, False)]"]
    by (simp add: sample_pool_world_def start_world_def)
qed

text \<open>
  C9 as stated fails: the byte counter does not grow by the number of bytes of the body.
  \<open>sys.getsizeof\<close> is the size of the string object in memory; for the body of 63 bytes
  of the example it is 100.
\<close>

theorem bulk_size_counterexample:
  "es_log (snd (bulk_iteration sample_lib sample_config [''idx''] (sample_pool_world (\<lambda>k. False))))
     = [Bulk sample_bulk]
   \<and> length sample_bulk = 63
   \<and> total_size (sample_pool_world (\<lambda>k. False)) = 0
   \<and> total_size (snd (bulk_iteration sample_lib sample_config [''idx'']
        (sample_pool_world (\<lambda>k. False)))) = 100"
proof -
  have "getsizeof sample_lib sample_bulk = 100"
    using sample_bulk_length by (simp add: sample_lib_def)
  moreover have "total_size (sample_pool_world (\<lambda>k. False)) = 0"
    by (simp add: sample_pool_world_def start_world_def)
  ultimately show ?thesis
    using sample_bulk_length by (simp add: sample_bulk_iteration)
qed


section \<open>Properties of the document pool\<close>

lemma generate_random_int_fails:
  "m < 1 \<Longrightarrow>
   generate_random_int m w = (Inl (SystemExit 1), print_line (NotSupporting m) w)"
  by (simp add: generate_random_int_def randint_def)

lemma generate_random_string_fails:
  "m < 1 \<Longrightarrow>
   generate_random_string m w = (Inl (SystemExit 1), print_line (NotSupporting m) w)"
  by (simp add: generate_random_string_def generate_random_int_fails)

lemma generate_document_fails_fields:
  "MAX_FIELDS_PER_DOCUMENT cfg < 1 \<Longrightarrow>
   generate_document cfg w =
     (Inl (SystemExit 1), print_line (NotSupporting (MAX_FIELDS_PER_DOCUMENT cfg)) w)"
  by (simp add: generate_document_def generate_random_int_fails)

lemma generate_document_fails_size:
  assumes "1 \<le> MAX_FIELDS_PER_DOCUMENT cfg" and "MAX_SIZE_PER_FIELD cfg < 1"
  shows "generate_document cfg w =
     (Inl (SystemExit 1),
      print_line (NotSupporting (MAX_SIZE_PER_FIELD cfg)) (w\<lparr>draws := draws w + 1\<rparr>))"
proof -
  obtain n where n: "generate_random_int (MAX_FIELDS_PER_DOCUMENT cfg) w =
      (Inr n, w\<lparr>draws := draws w + 1\<rparr>)" "1 \<le> n"
    using generate_random_int_ok[OF assms(1), of w] by blast
  obtain j where j: "nat n = Suc j" using n(2) by (cases "nat n") auto
  show ?thesis
    using n(1) j assms(2)
    by (simp add: generate_document_def generate_random_string_fails)
qed

lemma generate_document_ok:
  assumes "1 \<le> MAX_FIELDS_PER_DOCUMENT cfg" and "1 \<le> MAX_SIZE_PER_FIELD cfg"
  shows "\<exists>d k. generate_document cfg w =
           (Inr (length (heap w)), w\<lparr>draws := draws w + k, heap := heap w @ [d]\<rparr>)"
proof -
  obtain n where n: "generate_random_int (MAX_FIELDS_PER_DOCUMENT cfg) w = (Inr n, w\<lparr>draws := draws w + 1\<rparr>)"
    using generate_random_int_ok[OF assms(1), of w] by blast
  obtain d k where d: "add_fields cfg (nat n) [] (w\<lparr>draws := draws w + 1\<rparr>) = (Inr d, w\<lparr>draws := draws w + 1 + k\<rparr>)"
    using add_fields_ok[OF assms(2), of "[]" "nat n" "w\<lparr>draws := draws w + 1\<rparr>"] by auto
  have "generate_document cfg w =
      (Inr (length (heap w)), w\<lparr>draws := draws w + (1 + k), heap := heap w @ [d]\<rparr>)"
    using n d by (simp add: generate_document_def add.assoc)
  then show ?thesis by blast
qed

lemma generate_documents_loop_ok:
  assumes "1 \<le> MAX_FIELDS_PER_DOCUMENT cfg" and "1 \<le> MAX_SIZE_PER_FIELD cfg"
  shows "\<exists>k ds. generate_documents_loop cfg n acc w =
            (Inr (acc @ [length (heap w)..<length (heap w) + n]),
             w\<lparr>draws := draws w + k, heap := heap w @ ds\<rparr>) \<and> length ds = n"
proof (induction n arbitrary: acc w)
  case 0
  have "generate_documents_loop cfg 0 acc w =
      (Inr (acc @ [length (heap w)..<length (heap w) + 0]), w\<lparr>draws := draws w + 0, heap := heap w @ []\<rparr>)"
    by simp
  then show ?case by blast
next
  case (Suc n)
  obtain d k where d: "generate_document cfg w =
      (Inr (length (heap w)), w\<lparr>draws := draws w + k, heap := heap w @ [d]\<rparr>)"
    using generate_document_ok[OF assms, of w] by blast
  let ?w1 = "w\<lparr>draws := draws w + k, heap := heap w @ [d]\<rparr>"
  obtain k2 ds where r: "generate_documents_loop cfg n (acc @ [length (heap w)]) ?w1 =
      (Inr ((acc @ [length (heap w)]) @ [length (heap ?w1)..<length (heap ?w1) + n]),
       ?w1\<lparr>draws := draws ?w1 + k2, heap := heap ?w1 @ ds\<rparr>)" "length ds = n"
    using Suc.IH[of "acc @ [length (heap w)]" ?w1] by blast
  have u: "[length (heap w)..<length (heap w) + Suc n] =
      length (heap w) # [Suc (length (heap w))..<Suc (length (heap w)) + n]"
    by (simp add: upt_conv_Cons)
  have "generate_documents_loop cfg (Suc n) acc w =
      (Inr (acc @ [length (heap w)..<length (heap w) + Suc n]),
       w\<lparr>draws := draws w + (k + k2), heap := heap w @ (d # ds)\<rparr>)"
    using d r(1) u by (simp add: add.assoc)
  moreover have "length (d # ds) = Suc n" using r(2) by simp
  ultimately show ?case by blast
qed

lemma generate_documents_loop_fails_fields:
  "MAX_FIELDS_PER_DOCUMENT cfg < 1 \<Longrightarrow>
   generate_documents_loop cfg (Suc n) acc w =
     (Inl (SystemExit 1), print_line (NotSupporting (MAX_FIELDS_PER_DOCUMENT cfg)) w)"
  by (simp add: generate_document_fails_fields)

lemma generate_documents_loop_fails_size:
  "1 \<le> MAX_FIELDS_PER_DOCUMENT cfg \<Longrightarrow> MAX_SIZE_PER_FIELD cfg < 1 \<Longrightarrow>
   generate_documents_loop cfg (Suc n) acc w =
     (Inl (SystemExit 1),
      print_line (NotSupporting (MAX_SIZE_PER_FIELD cfg)) (w\<lparr>draws := draws w + 1\<rparr>))"
  by (simp add: generate_document_fails_size)

lemma keys_update_present:
  "k \<in> fst ` set al \<Longrightarrow> map fst (AList.update k v al) = map fst al"
  by (simp add: update_keys)

lemma populate_fields_ok:
  assumes "1 \<le> MAX_SIZE_PER_FIELD cfg"
    and "set fs \<subseteq> fst ` set (heap w ! r)"
  shows "\<exists>k h. populate_fields cfg r fs w = (Inr (), w\<lparr>draws := draws w + k, heap := h\<rparr>)
           \<and> map (map fst) h = map (map fst) (heap w)"
  using assms(2)
proof (induction fs arbitrary: w)
  case Nil
  have "populate_fields cfg r [] w = (Inr (), w\<lparr>draws := draws w + 0, heap := heap w\<rparr>)" by simp
  then show ?case by blast
next
  case (Cons f fs)
  obtain v k1 where v: "generate_random_string (MAX_SIZE_PER_FIELD cfg) w = (Inr v, w\<lparr>draws := draws w + k1\<rparr>)"
    using generate_random_string_ok[OF assms(1), of w] by blast
  let ?h = "(heap w)[r := AList.update f v (heap w ! r)]"
  let ?w1 = "w\<lparr>draws := draws w + k1, heap := ?h\<rparr>"
  have f: "f \<in> fst ` set (heap w ! r)" using Cons.prems by simp
  have keys: "map (map fst) ?h = map (map fst) (heap w)"
  proof (cases "r < length (heap w)")
    case True
    have "map (map fst) ?h = (map (map fst) (heap w))[r := map (map fst) (heap w) ! r]"
      using True keys_update_present[OF f, of v] by (simp add: map_update)
    then show ?thesis by simp
  next
    case False
    then have "?h = heap w" by (simp add: list_update_beyond)
    then show ?thesis by simp
  qed
  have sub: "set fs \<subseteq> fst ` set (heap ?w1 ! r)"
  proof (cases "r < length (heap w)")
    case True
    then show ?thesis using Cons.prems by (auto simp: dom_update)
  next
    case False
    then have "?h = heap w" by (simp add: list_update_beyond)
    then show ?thesis using Cons.prems by simp
  qed
  obtain k2 h where r: "populate_fields cfg r fs ?w1 = (Inr (), ?w1\<lparr>draws := draws ?w1 + k2, heap := h\<rparr>)"
      "map (map fst) h = map (map fst) (heap ?w1)"
    using Cons.IH[OF sub] by blast
  have "populate_fields cfg r (f # fs) w = (Inr (), w\<lparr>draws := draws w + (k1 + k2), heap := h\<rparr>)"
    using v r(1) by (simp add: add.assoc)
  moreover have "map (map fst) h = map (map fst) (heap w)" using r(2) keys by simp
  ultimately show ?case by blast
qed

lemma fill_documents_loop_ok:
  assumes "1 \<le> MAX_SIZE_PER_FIELD cfg" and "templates \<noteq> []"
  shows "\<exists>k h picks. fill_documents_loop cfg n templates w =
            (Inr (), w\<lparr>draws := draws w + k, heap := h, documents := documents w @ picks\<rparr>)
           \<and> length picks = n \<and> set picks \<subseteq> set templates
           \<and> map (map fst) h = map (map fst) (heap w)"
proof (induction n arbitrary: w)
  case 0
  show ?case
    by (intro exI[of _ 0] exI[of _ "heap w"] exI[of _ "[]"]) simp
next
  case (Suc n)
  obtain t where t: "choice templates (entropy w (draws w)) = Inr t" "t \<in> set templates"
    using choice_ok[OF assms(2)] by blast
  let ?w0 = "w\<lparr>draws := draws w + 1\<rparr>"
  have "set (map fst (heap w ! t)) \<subseteq> fst ` set (heap ?w0 ! t)" by simp
  then obtain k1 h1 where p: "populate_fields cfg t (map fst (heap w ! t)) ?w0 =
      (Inr (), ?w0\<lparr>draws := draws ?w0 + k1, heap := h1\<rparr>)"
      "map (map fst) h1 = map (map fst) (heap ?w0)"
    using populate_fields_ok[OF assms(1), of "map fst (heap w ! t)" ?w0 t] by blast
  let ?w1 = "w\<lparr>draws := draws w + 1 + k1, heap := h1, documents := documents w @ [t]\<rparr>"
  obtain k2 h picks where r: "fill_documents_loop cfg n templates ?w1 =
      (Inr (), ?w1\<lparr>draws := draws ?w1 + k2, heap := h, documents := documents ?w1 @ picks\<rparr>)"
      "length picks = n" "set picks \<subseteq> set templates" "map (map fst) h = map (map fst) (heap ?w1)"
    using Suc.IH[of ?w1] by blast
  have "fill_documents_loop cfg (Suc n) templates w =
      (Inr (), w\<lparr>draws := draws w + (1 + k1 + k2), heap := h, documents := documents w @ (t # picks)\<rparr>)"
    using t(1) p(1) r(1) by (simp add: add.assoc)
  moreover have "length (t # picks) = Suc n" using r(2) by simp
  moreover have "set (t # picks) \<subseteq> set templates" using r(3) t(2) by simp
  moreover have "map (map fst) h = map (map fst) (heap w)" using r(4) p(2) by simp
  ultimately show ?case by blast
qed

lemma fill_documents_empty:
  "fill_documents cfg [] w = (Inl IndexError, w)"
  by (simp add: fill_documents_def eval_nat_numeral choice_def)

lemma pool_built_valid:
  assumes "generate_documents cfg w = (Inr templates, w1)"
    and "fill_documents cfg templates w1 = (Inr (), w2)"
  shows "1 \<le> NUMBER_OF_DOCUMENTS cfg \<and> 1 \<le> MAX_FIELDS_PER_DOCUMENT cfg
         \<and> 1 \<le> MAX_SIZE_PER_FIELD cfg"
proof -
  have ne: "templates \<noteq> []" using assms(2) fill_documents_empty[of cfg w1] by auto
  have "nat (NUMBER_OF_DOCUMENTS cfg) \<noteq> 0"
    using assms(1) ne by (auto simp: generate_documents_def)
  then obtain m where m: "nat (NUMBER_OF_DOCUMENTS cfg) = Suc m"
    by (cases "nat (NUMBER_OF_DOCUMENTS cfg)") auto
  then have d: "1 \<le> NUMBER_OF_DOCUMENTS cfg" by linarith
  have g: "generate_documents_loop cfg (Suc m) [] w = (Inr templates, w1)"
    using assms(1) m by (simp add: generate_documents_def)
  have f: "1 \<le> MAX_FIELDS_PER_DOCUMENT cfg"
    using g generate_documents_loop_fails_fields[of cfg m "[]" w]
    by (cases "1 \<le> MAX_FIELDS_PER_DOCUMENT cfg") auto
  have s: "1 \<le> MAX_SIZE_PER_FIELD cfg"
    using g generate_documents_loop_fails_size[OF f, of m "[]" w]
    by (cases "1 \<le> MAX_SIZE_PER_FIELD cfg") auto
  show ?thesis using d f s by simp
qed

lemma pool_built:
  assumes "1 \<le> MAX_FIELDS_PER_DOCUMENT cfg" and "1 \<le> MAX_SIZE_PER_FIELD cfg"
    and "1 \<le> NUMBER_OF_DOCUMENTS cfg"
  shows "\<exists>k ds k2 h picks.
           generate_documents cfg w =
             (Inr [length (heap w)..<length (heap w) + nat (NUMBER_OF_DOCUMENTS cfg)],
              w\<lparr>draws := draws w + k, heap := heap w @ ds\<rparr>)
         \<and> length ds = nat (NUMBER_OF_DOCUMENTS cfg)
         \<and> fill_documents cfg [length (heap w)..<length (heap w) + nat (NUMBER_OF_DOCUMENTS cfg)]
              (w\<lparr>draws := draws w + k, heap := heap w @ ds\<rparr>) =
             (Inr (), w\<lparr>draws := draws w + k + k2, heap := h, documents := documents w @ picks\<rparr>)
         \<and> length picks = 10
         \<and> set picks \<subseteq> set [length (heap w)..<length (heap w) + nat (NUMBER_OF_DOCUMENTS cfg)]
         \<and> map (map fst) h = map (map fst) (heap w @ ds)"
proof -
  let ?T = "[length (heap w)..<length (heap w) + nat (NUMBER_OF_DOCUMENTS cfg)]"
  obtain k ds where g: "generate_documents cfg w =
      (Inr ?T, w\<lparr>draws := draws w + k, heap := heap w @ ds\<rparr>)"
      "length ds = nat (NUMBER_OF_DOCUMENTS cfg)"
    using generate_documents_loop_ok[OF assms(1,2), of "nat (NUMBER_OF_DOCUMENTS cfg)" "[]" w]
    by (auto simp: generate_documents_def)
  let ?w1 = "w\<lparr>draws := draws w + k, heap := heap w @ ds\<rparr>"
  have ne: "?T \<noteq> []" using assms(3) by simp
  obtain k2 h picks where f: "fill_documents_loop cfg 10 ?T ?w1 =
      (Inr (), ?w1\<lparr>draws := draws ?w1 + k2, heap := h, documents := documents ?w1 @ picks\<rparr>)"
      "length picks = 10" "set picks \<subseteq> set ?T" "map (map fst) h = map (map fst) (heap ?w1)"
    using fill_documents_loop_ok[OF assms(2) ne, of 10 ?w1] by blast
  have "fill_documents cfg ?T ?w1 =
      (Inr (), w\<lparr>draws := draws w + k + k2, heap := h, documents := documents w @ picks\<rparr>)"
    using f(1) by (simp add: fill_documents_def)
  moreover have "map (map fst) h = map (map fst) (heap w @ ds)" using f(4) by simp
  ultimately show ?thesis using g f(2,3) by blast
qed

lemma bulk_iteration_pool:
  "heap (snd (bulk_iteration L cfg indices w)) = heap w
   \<and> documents (snd (bulk_iteration L cfg indices w)) = documents w
   \<and> shutdown_event (snd (bulk_iteration L cfg indices w)) = shutdown_event w"
proof (cases "build_bulk L (nat (BULK_SIZE cfg)) indices [] w")
  case (Pair r w1)
  then obtain k where w1: "w1 = w\<lparr>draws := draws w + k\<rparr>"
    using build_bulk_world by blast
  show ?thesis
    using Pair w1
    by (cases r)
       (simp_all add: bulk_iteration_def es_request_def increment_failure_def
          increment_success_def increment_size_def)
qed

lemma client_worker_pool:
  "client_worker L cfg indices t0 obs w = Some (r, w') \<Longrightarrow>
   heap w' = heap w \<and> documents w' = documents w"
proof (induction obs arbitrary: w)
  case Nil
  then show ?case by simp
next
  case (Cons ob obs)
  obtain now ctrl_c where ob: "ob = (now, ctrl_c)" by (cases ob)
  let ?w0 = "if ctrl_c then w\<lparr>shutdown_event := True\<rparr> else w"
  have w0: "heap ?w0 = heap w" "documents ?w0 = documents w" by auto
  show ?case
  proof (cases "(\<not> has_timeout cfg t0 now) \<and> (\<not> shutdown_event ?w0)")
    case False
    then have "client_worker L cfg indices t0 (ob # obs) w = Some (Inr (), ?w0)"
      using ob by (auto simp: Let_def)
    with Cons.prems w0 show ?thesis by auto
  next
    case True
    obtain x w1 where it: "bulk_iteration L cfg indices ?w0 = (x, w1)"
      by (cases "bulk_iteration L cfg indices ?w0")
    have p: "heap w1 = heap w" "documents w1 = documents w"
      using bulk_iteration_pool[of L cfg indices ?w0] it w0 by auto
    show ?thesis
    proof (cases x)
      case (Inl e)
      then have "client_worker L cfg indices t0 (ob # obs) w = Some (Inl e, w1)"
        using ob True it by (auto simp: Let_def)
      with Cons.prems p show ?thesis by auto
    next
      case (Inr u)
      then have "client_worker L cfg indices t0 (ob # obs) w = client_worker L cfg indices t0 obs w1"
        using ob True it by (auto simp: Let_def)
      with Cons.prems Cons.IH[of w1] p show ?thesis by auto
    qed
  qed
qed

lemma update_replace:
  "f \<notin> fst ` set pre \<Longrightarrow>
   AList.update f v (pre @ (f, old) # post) = pre @ (f, v) # post"
  by (induction pre) auto

lemma drawn_values_length: "length (fst (drawn_values cfg ent n p)) = n"
  by (induction n arbitrary: p) (simp_all add: Let_def)

lemma populate_fields_drawn:
  assumes "1 \<le> MAX_SIZE_PER_FIELD cfg"
    and "t < length (heap w)" and "heap w ! t = pre @ post"
    and "distinct (map fst (pre @ post))"
  shows "populate_fields cfg t (map fst post) w =
           (Inr (),
            w\<lparr>draws := snd (drawn_values cfg (entropy w) (length post) (draws w)),
              heap := (heap w)[t := pre @ zip (map fst post)
                        (fst (drawn_values cfg (entropy w) (length post) (draws w)))]\<rparr>)"
  using assms(2-4)
proof (induction post arbitrary: pre w)
  case Nil
  then have "(heap w)[t := pre] = heap w" by (metis append_Nil2 list_update_id)
  then show ?case by simp
next
  case (Cons kv post)
  obtain f old where kv: "kv = (f, old)" by (cases kv)
  let ?v = "drawn_string (MAX_SIZE_PER_FIELD cfg) (entropy w) (draws w)"
  let ?p1 = "draws w + 1 + length ?v"
  have v: "generate_random_string (MAX_SIZE_PER_FIELD cfg) w = (Inr ?v, w\<lparr>draws := ?p1\<rparr>)"
    using generate_random_string_drawn[OF assms(1), of w] by simp
  have nf: "f \<notin> fst ` set pre" using Cons.prems(3) kv by auto
  have upd: "AList.update f ?v (heap w ! t) = (pre @ [(f, ?v)]) @ post"
    using Cons.prems(2) kv update_replace[OF nf, of ?v old post] by simp
  let ?w1 = "w\<lparr>draws := ?p1, heap := (heap w)[t := (pre @ [(f, ?v)]) @ post]\<rparr>"
  have a1: "t < length (heap ?w1)" using Cons.prems(1) by simp
  have a2: "heap ?w1 ! t = (pre @ [(f, ?v)]) @ post" using Cons.prems(1) by simp
  have a3: "distinct (map fst ((pre @ [(f, ?v)]) @ post))" using Cons.prems(3) kv by simp
  have ih: "populate_fields cfg t (map fst post) ?w1 =
      (Inr (),
       ?w1\<lparr>draws := snd (drawn_values cfg (entropy ?w1) (length post) (draws ?w1)),
           heap := (heap ?w1)[t := (pre @ [(f, ?v)]) @ zip (map fst post)
                     (fst (drawn_values cfg (entropy ?w1) (length post) (draws ?w1)))]\<rparr>)"
    by (rule Cons.IH[OF a1 a2 a3])
  have "populate_fields cfg t (map fst (kv # post)) w = populate_fields cfg t (map fst post) ?w1"
    using v upd kv by simp
  also note ih
  finally show ?case using kv by (simp add: Let_def)
qed

lemma fill_pass:
  assumes "1 \<le> MAX_SIZE_PER_FIELD cfg" and "templates \<noteq> []"
    and "\<forall>t \<in> set templates. t < length (heap w) \<and> distinct (map fst (heap w ! t))"
  shows "fill_documents_loop cfg (Suc n) templates w =
           fill_documents_loop cfg n templates (refill_pass cfg templates w)"
proof -
  let ?t = "templates ! (entropy w (draws w) mod length templates)"
  have c: "choice templates (entropy w (draws w)) = Inr ?t"
    using assms(2) by (simp add: choice_def)
  have tin: "?t \<in> set templates" using assms(2) by simp
  then have t1: "?t < length (heap w)" and t2: "distinct (map fst (heap w ! ?t))"
    using assms(3) by auto
  let ?w0 = "w\<lparr>draws := draws w + 1\<rparr>"
  have p: "populate_fields cfg ?t (map fst (heap w ! ?t)) ?w0 =
      (Inr (),
       ?w0\<lparr>draws := snd (drawn_values cfg (entropy ?w0) (length (heap w ! ?t)) (draws ?w0)),
           heap := (heap ?w0)[?t := [] @ zip (map fst (heap w ! ?t))
                     (fst (drawn_values cfg (entropy ?w0) (length (heap w ! ?t)) (draws ?w0)))]\<rparr>)"
    using populate_fields_drawn[OF assms(1), of ?t ?w0 "[]" "heap w ! ?t"] t1 t2 by simp
  show ?thesis
    using c p by (simp add: refill_pass_def Let_def)
qed

lemma refill_pass_invariant:
  assumes "templates \<noteq> []"
    and "\<forall>t \<in> set templates. t < length (heap w) \<and> distinct (map fst (heap w ! t))"
  shows "(\<forall>t \<in> set templates. t < length (heap (refill_pass cfg templates w))
            \<and> distinct (map fst (heap (refill_pass cfg templates w) ! t)))
         \<and> map (map fst) (heap (refill_pass cfg templates w)) = map (map fst) (heap w)
         \<and> documents (refill_pass cfg templates w) =
             documents w @ [templates ! (entropy w (draws w) mod length templates)]"
proof -
  let ?t = "templates ! (entropy w (draws w) mod length templates)"
  let ?vs = "fst (drawn_values cfg (entropy w) (length (heap w ! ?t)) (draws w + 1))"
  let ?h = "(heap w)[?t := zip (map fst (heap w ! ?t)) ?vs]"
  have h: "heap (refill_pass cfg templates w) = ?h" by (simp add: refill_pass_def Let_def)
  have keys: "map fst (zip (map fst (heap w ! ?t)) ?vs) = map fst (heap w ! ?t)"
    by (simp add: drawn_values_length)
  have same: "map (map fst) ?h = map (map fst) (heap w)"
  proof (cases "?t < length (heap w)")
    case True
    have "map (map fst) ?h = (map (map fst) (heap w))[?t := map (map fst) (heap w) ! ?t]"
      using True keys by (simp add: map_update)
    then show ?thesis by simp
  next
    case False
    then have "?h = heap w" by (simp add: list_update_beyond)
    then show ?thesis by simp
  qed
  have inv: "\<forall>t \<in> set templates. t < length ?h \<and> distinct (map fst (?h ! t))"
  proof
    fix t assume t: "t \<in> set templates"
    then have a: "t < length (heap w)" "distinct (map fst (heap w ! t))"
      using assms(2) by auto
    have "map fst (?h ! t) = map (map fst) ?h ! t" using a(1) by simp
    also have "\<dots> = map fst (heap w ! t)" using same a(1) by simp
    finally show "t < length ?h \<and> distinct (map fst (?h ! t))" using a by simp
  qed
  show ?thesis using h inv same by (simp add: refill_pass_def Let_def)
qed

lemma fill_documents_loop_drawn:
  assumes "1 \<le> MAX_SIZE_PER_FIELD cfg" and "templates \<noteq> []"
  shows "(\<forall>t \<in> set templates. t < length (heap w) \<and> distinct (map fst (heap w ! t))) \<Longrightarrow>
         fill_documents_loop cfg n templates w = (Inr (), (refill_pass cfg templates ^^ n) w)"
proof (induction n arbitrary: w)
  case 0
  show ?case by simp
next
  case (Suc n)
  have inv: "\<forall>t \<in> set templates. t < length (heap (refill_pass cfg templates w))
            \<and> distinct (map fst (heap (refill_pass cfg templates w) ! t))"
    using refill_pass_invariant[OF assms(2) Suc.prems] by blast
  have "fill_documents_loop cfg (Suc n) templates w =
      fill_documents_loop cfg n templates (refill_pass cfg templates w)"
    by (rule fill_pass[OF assms Suc.prems])
  also have "\<dots> = (Inr (), (refill_pass cfg templates ^^ n) (refill_pass cfg templates w))"
    by (rule Suc.IH[OF inv])
  finally show ?case by (simp add: funpow_swap1)
qed

lemma generate_document_distinct:
  assumes "1 \<le> MAX_FIELDS_PER_DOCUMENT cfg" and "1 \<le> MAX_SIZE_PER_FIELD cfg"
  shows "\<exists>d k. generate_document cfg w =
           (Inr (length (heap w)), w\<lparr>draws := draws w + k, heap := heap w @ [d]\<rparr>)
         \<and> distinct (map fst d)"
proof -
  obtain n where n: "generate_random_int (MAX_FIELDS_PER_DOCUMENT cfg) w = (Inr n, w\<lparr>draws := draws w + 1\<rparr>)"
    using generate_random_int_ok[OF assms(1), of w] by blast
  obtain d k where d: "add_fields cfg (nat n) [] (w\<lparr>draws := draws w + 1\<rparr>) = (Inr d, w\<lparr>draws := draws w + 1 + k\<rparr>)"
    "distinct (map fst d)"
    using add_fields_ok[OF assms(2), of "[]" "nat n" "w\<lparr>draws := draws w + 1\<rparr>"] by auto
  have "generate_document cfg w =
      (Inr (length (heap w)), w\<lparr>draws := draws w + (1 + k), heap := heap w @ [d]\<rparr>)"
    using n d(1) by (simp add: generate_document_def add.assoc)
  then show ?thesis using d(2) by blast
qed

lemma generate_documents_loop_distinct:
  assumes "1 \<le> MAX_FIELDS_PER_DOCUMENT cfg" and "1 \<le> MAX_SIZE_PER_FIELD cfg"
  shows "\<exists>k ds. generate_documents_loop cfg n acc w =
            (Inr (acc @ [length (heap w)..<length (heap w) + n]),
             w\<lparr>draws := draws w + k, heap := heap w @ ds\<rparr>) \<and> length ds = n
           \<and> list_all (\<lambda>d. distinct (map fst d)) ds"
proof (induction n arbitrary: acc w)
  case 0
  have "generate_documents_loop cfg 0 acc w =
      (Inr (acc @ [length (heap w)..<length (heap w) + 0]), w\<lparr>draws := draws w + 0, heap := heap w @ []\<rparr>)"
    by simp
  moreover have "list_all (\<lambda>d. distinct (map fst d)) ([] :: doc list)" by simp
  ultimately show ?case by (metis list.size(3))
next
  case (Suc n)
  obtain d k where d: "generate_document cfg w =
      (Inr (length (heap w)), w\<lparr>draws := draws w + k, heap := heap w @ [d]\<rparr>)"
      "distinct (map fst d)"
    using generate_document_distinct[OF assms, of w] by blast
  let ?w1 = "w\<lparr>draws := draws w + k, heap := heap w @ [d]\<rparr>"
  obtain k2 ds where r: "generate_documents_loop cfg n (acc @ [length (heap w)]) ?w1 =
      (Inr ((acc @ [length (heap w)]) @ [length (heap ?w1)..<length (heap ?w1) + n]),
       ?w1\<lparr>draws := draws ?w1 + k2, heap := heap ?w1 @ ds\<rparr>)" "length ds = n"
      "list_all (\<lambda>d. distinct (map fst d)) ds"
    using Suc.IH[of "acc @ [length (heap w)]" ?w1] by blast
  have u: "[length (heap w)..<length (heap w) + Suc n] =
      length (heap w) # [Suc (length (heap w))..<Suc (length (heap w)) + n]"
    by (simp add: upt_conv_Cons)
  have "generate_documents_loop cfg (Suc n) acc w =
      (Inr (acc @ [length (heap w)..<length (heap w) + Suc n]),
       w\<lparr>draws := draws w + (k + k2), heap := heap w @ (d # ds)\<rparr>)"
    using d(1) r(1) u by (simp add: add.assoc)
  moreover have "length (d # ds) = Suc n" using r(2) by simp
  moreover have "list_all (\<lambda>d. distinct (map fst d)) (d # ds)" using d(2) r(3) by simp
  ultimately show ?case by blast
qed

text \<open>
  C10, as amended. For every document count, maximum field count and maximum field size of
  at least 1, the two steps that build the pool for one address return.
  \<open>generate_documents\<close> creates as many new documents as configured and leaves the pool as
  it was. \<open>fill_documents\<close> makes exactly ten passes, each choosing one template among all
  of them, writing a newly drawn value into every field of that object and appending its
  address to the pool: the pool grows by exactly 10 entries, each the address of a template,
  no further document is created and every document keeps its field names. In the witness
  one template is configured: the 10 entries of the pool are the same document, whose value
  has changed.
\<close>

theorem document_pool_ten_entries:
  assumes "1 \<le> NUMBER_OF_DOCUMENTS cfg" and "1 \<le> MAX_FIELDS_PER_DOCUMENT cfg"
    and "1 \<le> MAX_SIZE_PER_FIELD cfg"
  shows "\<exists>templates w1 picks.
           generate_documents cfg w = (Inr templates, w1)
         \<and> templates = [length (heap w)..<length (heap w) + nat (NUMBER_OF_DOCUMENTS cfg)]
         \<and> length (heap w1) = length (heap w) + nat (NUMBER_OF_DOCUMENTS cfg)
         \<and> documents w1 = documents w
         \<and> fill_documents cfg templates w1 = (Inr (), (refill_pass cfg templates ^^ 10) w1)
         \<and> documents ((refill_pass cfg templates ^^ 10) w1) = documents w @ picks
         \<and> length picks = 10
         \<and> set picks \<subseteq> set templates
         \<and> length (heap ((refill_pass cfg templates ^^ 10) w1)) = length (heap w1)
         \<and> map (map fst) (heap ((refill_pass cfg templates ^^ 10) w1)) = map (map fst) (heap w1)"
proof -
  let ?n = "nat (NUMBER_OF_DOCUMENTS cfg)"
  let ?T = "[length (heap w)..<length (heap w) + ?n]"
  obtain k ds where g: "generate_documents cfg w =
      (Inr ?T, w\<lparr>draws := draws w + k, heap := heap w @ ds\<rparr>)"
      "length ds = ?n" "list_all (\<lambda>d. distinct (map fst d)) ds"
    using generate_documents_loop_distinct[OF assms(2,3), of ?n "[]" w]
    by (auto simp: generate_documents_def)
  let ?w1 = "w\<lparr>draws := draws w + k, heap := heap w @ ds\<rparr>"
  have ne: "?T \<noteq> []" using assms(1) by simp
  have inv: "\<forall>t \<in> set ?T. t < length (heap ?w1) \<and> distinct (map fst (heap ?w1 ! t))"
  proof
    fix t assume "t \<in> set ?T"
    then have t: "length (heap w) \<le> t" "t < length (heap w) + ?n" by auto
    then have "heap ?w1 ! t = ds ! (t - length (heap w))" by (simp add: nth_append)
    moreover have "distinct (map fst (ds ! (t - length (heap w))))"
      using g(2,3) t by (simp add: list_all_length)
    ultimately show "t < length (heap ?w1) \<and> distinct (map fst (heap ?w1 ! t))"
      using t g(2) by simp
  qed
  have f: "fill_documents cfg ?T ?w1 = (Inr (), (refill_pass cfg ?T ^^ 10) ?w1)"
    using fill_documents_loop_drawn[OF assms(3) ne inv, of 10] by (simp add: fill_documents_def)
  obtain k2 h picks where l: "fill_documents_loop cfg 10 ?T ?w1 =
      (Inr (), ?w1\<lparr>draws := draws ?w1 + k2, heap := h, documents := documents ?w1 @ picks\<rparr>)"
      "length picks = 10" "set picks \<subseteq> set ?T" "map (map fst) h = map (map fst) (heap ?w1)"
    using fill_documents_loop_ok[OF assms(3) ne, of 10 ?w1] by blast
  have e: "(refill_pass cfg ?T ^^ 10) ?w1 =
      ?w1\<lparr>draws := draws ?w1 + k2, heap := h, documents := documents ?w1 @ picks\<rparr>"
    using f l(1) by (simp add: fill_documents_def)
  have len: "length h = length (heap ?w1)" using l(4) by (metis length_map)
  have p1: "documents ((refill_pass cfg ?T ^^ 10) ?w1) = documents w @ picks" using e by simp
  have p2: "length (heap ((refill_pass cfg ?T ^^ 10) ?w1)) = length (heap ?w1)"
    using e len by simp
  have p3: "map (map fst) (heap ((refill_pass cfg ?T ^^ 10) ?w1)) = map (map fst) (heap ?w1)"
    using e l(4) by simp
  have q1: "length (heap ?w1) = length (heap w) + ?n" using g(2) by simp
  have q2: "documents ?w1 = documents w" by simp
  show ?thesis
    using g(1) q1 q2 f p1 l(2,3) p2 p3 by blast
qed

theorem document_pool_ten_entries_witness:
  "1 \<le> NUMBER_OF_DOCUMENTS sample_config \<and> 1 \<le> MAX_FIELDS_PER_DOCUMENT sample_config
   \<and> 1 \<le> MAX_SIZE_PER_FIELD sample_config
   \<and> generate_documents sample_config (start_world (\<lambda>i. i) (\<lambda>k. False)) =
       (Inr [0], sample_templates_world)
   \<and> heap sample_templates_world = [[(''efgh'', ''c'')]]
   \<and> documents sample_templates_world = []
   \<and> fill_documents sample_config [0] sample_templates_world =
       (Inr (), (refill_pass sample_config [0] ^^ 10) sample_templates_world)
   \<and> documents ((refill_pass sample_config [0] ^^ 10) sample_templates_world)
       = [0, 0, 0, 0, 0, 0, 0, 0, 0, 0]
   \<and> heap ((refill_pass sample_config [0] ^^ 10) sample_templates_world)
       = [[(''efgh'', ''l'')]]"
proof -
  have h1: "1 \<le> NUMBER_OF_DOCUMENTS sample_config" by (simp add: sample_config_def)
  have h2: "1 \<le> MAX_FIELDS_PER_DOCUMENT sample_config" by (simp add: sample_config_def)
  have h3: "1 \<le> MAX_SIZE_PER_FIELD sample_config" by (simp add: sample_config_def)
  have g: "fst (generate_documents sample_config (start_world (\<lambda>i. i) (\<lambda>k. False))) = Inr [0]"
    by code_simp
  have g': "generate_documents sample_config (start_world (\<lambda>i. i) (\<lambda>k. False)) =
     (Inr [0], sample_templates_world)"
    using g by (simp add: sample_templates_world_def prod_eq_iff)
  have f: "fill_documents sample_config [0] sample_templates_world =
       (Inr (), (refill_pass sample_config [0] ^^ 10) sample_templates_world)"
    using g' document_pool_ten_entries [OF h1 h2 h3, of "start_world (\<lambda>i. i) (\<lambda>k. False)"]
    by auto
  then have s: "(refill_pass sample_config [0] ^^ 10) sample_templates_world = sample_filled_world"
    by (simp add: sample_filled_world_def)
  have e0: "documents sample_templates_world = []" by code_simp
  have e1: "documents sample_filled_world = [0, 0, 0, 0, 0, 0, 0, 0, 0, 0]" by code_simp
  have e2: "heap sample_templates_world = [[(''efgh'', ''c'')]]" by code_simp
  have e3: "heap sample_filled_world = [[(''efgh'', ''l'')]]" by code_simp
  show ?thesis using h1 h2 h3 g' f s e0 e1 e2 e3 by simp
qed

text \<open>
  C10 as stated fails for a document count below 1: \<open>generate_documents\<close> returns no
  template, the first \<open>choice\<close> of \<open>fill_documents\<close> raises \<open>IndexError\<close>, and the pool
  receives no entry. It receives none either when the maximum field count or the maximum
  field size is below 1 and the process exits while the first template is generated.
\<close>

theorem document_pool_empty_counterexample:
  "fst (generate_documents (sample_config\<lparr>NUMBER_OF_DOCUMENTS := 0\<rparr>)
          (start_world (\<lambda>i. i) (\<lambda>k. False))) = Inr []
   \<and> fst (fill_documents (sample_config\<lparr>NUMBER_OF_DOCUMENTS := 0\<rparr>) []
          (snd (generate_documents (sample_config\<lparr>NUMBER_OF_DOCUMENTS := 0\<rparr>)
                 (start_world (\<lambda>i. i) (\<lambda>k. False))))) = Inl IndexError
   \<and> documents (snd (fill_documents (sample_config\<lparr>NUMBER_OF_DOCUMENTS := 0\<rparr>) []
          (snd (generate_documents (sample_config\<lparr>NUMBER_OF_DOCUMENTS := 0\<rparr>)
                 (start_world (\<lambda>i. i) (\<lambda>k. False)))))) = []
   \<and> fst (init_endpoint (sample_config\<lparr>NUMBER_OF_DOCUMENTS := 0\<rparr>)
          (start_world (\<lambda>i. i) (\<lambda>k. False))) = Inl IndexError
   \<and> documents (snd (init_endpoint (sample_config\<lparr>NUMBER_OF_DOCUMENTS := 0\<rparr>)
          (start_world (\<lambda>i. i) (\<lambda>k. False)))) = []
   \<and> fst (init_endpoint (sample_config\<lparr>MAX_FIELDS_PER_DOCUMENT := 0\<rparr>)
          (start_world (\<lambda>i. i) (\<lambda>k. False))) = Inl (SystemExit 1)
   \<and> documents (snd (init_endpoint (sample_config\<lparr>MAX_FIELDS_PER_DOCUMENT := 0\<rparr>)
          (start_world (\<lambda>i. i) (\<lambda>k. False)))) = []
   \<and> fst (init_endpoint (sample_config\<lparr>MAX_SIZE_PER_FIELD := 0\<rparr>)
          (start_world (\<lambda>i. i) (\<lambda>k. False))) = Inl (SystemExit 1)
   \<and> documents (snd (init_endpoint (sample_config\<lparr>MAX_SIZE_PER_FIELD := 0\<rparr>)
          (start_world (\<lambda>i. i) (\<lambda>k. False)))) = []"
  by code_simp

text \<open>
  C8, as amended. No run of the worker loop changes the pool or any document: the list
  \<open>documents\<close> and the object store are the same when the worker returns. Building the
  pool for an address keeps the field names of every document and the entries the pool
  already had.
\<close>

theorem pool_read_only_for_workers:
  "(client_worker L cfg indices t0 obs w = Some (r, w') \<longrightarrow>
       heap w' = heap w \<and> documents w' = documents w)
   \<and> (generate_documents cfg w = (Inr templates, w1)
        \<and> fill_documents cfg templates w1 = (Inr (), w2) \<longrightarrow>
       map (map fst) (heap w2) = map (map fst) (heap w1)
       \<and> take (length (documents w)) (documents w2) = documents w)"
proof -
  have workers: "client_worker L cfg indices t0 obs w = Some (r, w') \<longrightarrow>
       heap w' = heap w \<and> documents w' = documents w"
    using client_worker_pool by blast
  have construction: "map (map fst) (heap w2) = map (map fst) (heap w1)
       \<and> take (length (documents w)) (documents w2) = documents w"
    if a: "generate_documents cfg w = (Inr templates, w1)
        \<and> fill_documents cfg templates w1 = (Inr (), w2)"
  proof -
    have v: "1 \<le> MAX_FIELDS_PER_DOCUMENT cfg" "1 \<le> MAX_SIZE_PER_FIELD cfg"
      "1 \<le> NUMBER_OF_DOCUMENTS cfg"
      using a pool_built_valid[of cfg w templates w1 w2] by auto
    obtain k ds k2 h picks where p:
    "generate_documents cfg w =
       (Inr [length (heap w)..<length (heap w) + nat (NUMBER_OF_DOCUMENTS cfg)],
        w\<lparr>draws := draws w + k, heap := heap w @ ds\<rparr>)"
    "fill_documents cfg [length (heap w)..<length (heap w) + nat (NUMBER_OF_DOCUMENTS cfg)]
        (w\<lparr>draws := draws w + k, heap := heap w @ ds\<rparr>) =
       (Inr (), w\<lparr>draws := draws w + k + k2, heap := h, documents := documents w @ picks\<rparr>)"
    "map (map fst) h = map (map fst) (heap w @ ds)"
    using pool_built[OF v, of w] by blast
  have t: "templates = [length (heap w)..<length (heap w) + nat (NUMBER_OF_DOCUMENTS cfg)]"
    and w1: "w1 = w\<lparr>draws := draws w + k, heap := heap w @ ds\<rparr>"
    using a p(1) by auto
  have w2: "w2 = w\<lparr>draws := draws w + k + k2, heap := h, documents := documents w @ picks\<rparr>"
    using a p(2) t w1 by auto
    show ?thesis using w1 w2 p(3) by simp
  qed
  show ?thesis using workers construction by blast
qed

text \<open>A witness: the worker of the examples makes one request and leaves the pool alone.\<close>

theorem pool_read_only_for_workers_witness:
  "client_worker sample_lib sample_config [''idx''] 0 [(10, False), (60, False)]
     (sample_pool_world (\<lambda>k. False)) =
     Some (Inr (), (sample_pool_world (\<lambda>k. False))
             \<lparr>draws := 2, es_log := [Bulk sample_bulk], success_bulks := 1,
              total_size := getsizeof sample_lib sample_bulk\<rparr>)
   \<and> heap ((sample_pool_world (\<lambda>k. False))
             \<lparr>draws := 2, es_log := [Bulk sample_bulk], success_bulks := 1,
              total_size := getsizeof sample_lib sample_bulk\<rparr>)
       = heap (sample_pool_world (\<lambda>k. False))
   \<and> documents ((sample_pool_world (\<lambda>k. False))
             \<lparr>draws := 2, es_log := [Bulk sample_bulk], success_bulks := 1,
              total_size := getsizeof sample_lib sample_bulk\<rparr>)
       = documents (sample_pool_world (\<lambda>k. False))"
proof -
  have n: "\<not> has_timeout sample_config 0 10" by (simp add: has_timeout_def sample_config_def)
  have t: "has_timeout sample_config 0 60" by (simp add: has_timeout_def sample_config_def)
  have s: "\<not> shutdown_event (sample_pool_world (\<lambda>k. False))"
    by (simp add: sample_pool_world_def start_world_def)
  have run: "client_worker sample_lib sample_config [''idx''] 0 [(10, False), (60, False)]
     (sample_pool_world (\<lambda>k. False)) =
     Some (Inr (), (sample_pool_world (\<lambda>k. False))
             \<lparr>draws := 2, es_log := [Bulk sample_bulk], success_bulks := 1,
              total_size := getsizeof sample_lib sample_bulk\<rparr>)"
    using n t s by (simp add: sample_bulk_iteration)
  show ?thesis
    using run
      pool_read_only_for_workers [of sample_lib sample_config "[''idx'']" 0
        "[(10, False), (60, False)]" "sample_pool_world (\<lambda>k. False)" "Inr ()"
        "(sample_pool_world (\<lambda>k. False))
             \<lparr>draws := 2, es_log := [Bulk sample_bulk], success_bulks := 1,
              total_size := getsizeof sample_lib sample_bulk\<rparr>"]
    by blast
qed

text \<open>
  C8 as stated fails: \<open>fill_documents\<close> changes documents that exist already. The template
  is generated with the value \<open>c\<close>; the first pass of \<open>fill_documents\<close> changes it to \<open>k\<close>
  and puts the document into the pool; the second pass changes the value of that pooled
  document to \<open>n\<close>; after the tenth pass it is \<open>l\<close>.
\<close>

theorem pool_mutated_counterexample:
  "heap sample_templates_world = [[(''efgh'', ''c'')]]
   \<and> documents (snd (fill_documents_loop sample_config 1 [0] sample_templates_world)) = [0]
   \<and> heap (snd (fill_documents_loop sample_config 1 [0] sample_templates_world))
        = [[(''efgh'', ''k'')]]
   \<and> heap (snd (fill_documents_loop sample_config 2 [0] sample_templates_world))
        = [[(''efgh'', ''n'')]]
   \<and> heap sample_filled_world = [[(''efgh'', ''l'')]]"
  by code_simp


section \<open>Properties of the main thread\<close>


lemma wait_for_client_interrupted:
  "wait_for_client all_indecies (Suc fuel) (replicate k JoinReturns @ JoinInterrupted # evs) w =
     Some (Inl AttributeError,
           (print_line CtrlCReceived (print_line Blank w))\<lparr>shutdown_event := True\<rparr>)"
  by (induction k) (simp_all add: Thread_enumerate_def)




text \<open>
  C1, on the code. A \<open>KeyboardInterrupt\<close> in \<open>join\<close>, after any number of joins that timed
  out, makes the main thread print its notice and set the shutdown event; the first poll of
  line 448 then raises \<open>AttributeError\<close>, which leaves \<open>main\<close>. The process reports an
  unexpected exception and exits with status 1: no index is deleted and no final statistics
  are printed.
\<close>

theorem interrupt_ends_in_attribute_error:
  "\<exists>w'. main_finish cfg all_indecies t0 now (Suc fuel) (Suc clients)
            (replicate k JoinReturns @ JoinInterrupted # evs) w = Some (Inl AttributeError, w')
      \<and> shutdown_event w'
      \<and> stdout w' = stdout w @ [Blank, CtrlCReceived]
      \<and> es_log w' = es_log w
      \<and> fst (script_exit (Inl AttributeError, w')) = 1
      \<and> stdout (snd (script_exit (Inl AttributeError, w'))) =
           stdout w @ [Blank, CtrlCReceived,
                       UnexpectedException, Blank, ExceptionMessage AttributeError, Blank]
      \<and> es_log (snd (script_exit (Inl AttributeError, w'))) = es_log w"
proof -
  let ?w' = "(print_line CtrlCReceived (print_line Blank w))\<lparr>shutdown_event := True\<rparr>"
  have "main_finish cfg all_indecies t0 now (Suc fuel) (Suc clients)
            (replicate k JoinReturns @ JoinInterrupted # evs) w = Some (Inl AttributeError, ?w')"
    by (simp add: main_finish_def wait_for_client_interrupted del: wait_for_client.simps)
  moreover have "shutdown_event ?w'" by simp
  moreover have "stdout ?w' = stdout w @ [Blank, CtrlCReceived]" by (simp add: print_line_def)
  moreover have "es_log ?w' = es_log w" by (simp add: print_line_def)
  moreover have "fst (script_exit (Inl AttributeError, ?w')) = 1"
    by (simp add: script_exit_def script_raised_def)
  moreover have "stdout (snd (script_exit (Inl AttributeError, ?w'))) =
           stdout w @ [Blank, CtrlCReceived,
                       UnexpectedException, Blank, ExceptionMessage AttributeError, Blank]"
    by (simp add: script_exit_def script_raised_def print_line_def)
  moreover have "es_log (snd (script_exit (Inl AttributeError, ?w'))) = es_log w"
    by (simp add: script_exit_def script_raised_def print_line_def)
  ultimately show ?thesis by blast
qed

end
